theory Spec2Isabelle
  imports Complex_Main
begin

section \<open>Qt strings and integers\<close>

text \<open>
  A \<open>QString\<close> is modelled as a \<open>string\<close> whose characters are read as 7-bit ASCII
  code points: \<open>isDigit\<close>, \<open>isSpace\<close>, \<open>isUpper\<close> and \<open>isWord\<close> are the classes
  \<open>\d\<close>, \<open>\s\<close>, \<open>[A-Z]\<close> and \<open>\w\<close> of \<open>QRegExp\<close> on that range. The gettext
  macro \<open>_()\<close> is the identity (the untranslated locale).
\<close>

definition isDigit :: "char \<Rightarrow> bool" where
  "isDigit c = (48 \<le> (of_char c :: nat) \<and> (of_char c :: nat) \<le> 57)"

definition isSpace :: "char \<Rightarrow> bool" where
  "isSpace c = ((of_char c :: nat) = 32 \<or> (9 \<le> (of_char c :: nat) \<and> (of_char c :: nat) \<le> 13))"

definition isUpper :: "char \<Rightarrow> bool" where
  "isUpper c = (65 \<le> (of_char c :: nat) \<and> (of_char c :: nat) \<le> 90)"

definition isLower :: "char \<Rightarrow> bool" where
  "isLower c = (97 \<le> (of_char c :: nat) \<and> (of_char c :: nat) \<le> 122)"

definition isWord :: "char \<Rightarrow> bool" where
  "isWord c = (isDigit c \<or> isUpper c \<or> isLower c \<or> c = CHR ''_'')"

text \<open>\<open>text.replace(QRegExp("\\s+"), "")\<close>: every run of whitespace is deleted.\<close>

definition removeSpaces :: "string \<Rightarrow> string" where
  "removeSpaces s = filter (\<lambda>c. \<not> isSpace c) s"

text \<open>
  \<open>QString::split(sep)\<close> cuts at every separator and keeps empty pieces;
  with \<open>QString::SkipEmptyParts\<close> the empty pieces are dropped.
\<close>

fun splitOn :: "char \<Rightarrow> string \<Rightarrow> string list" where
  "splitOn sep [] = [[]]"
| "splitOn sep (c # cs) =
     (if c = sep then [] # splitOn sep cs
      else (case splitOn sep cs of
              [] \<Rightarrow> [[c]]
            | w # ws \<Rightarrow> (c # w) # ws))"

definition split_SkipEmptyParts :: "char \<Rightarrow> string \<Rightarrow> string list" where
  "split_SkipEmptyParts sep s = filter (\<lambda>w. w \<noteq> []) (splitOn sep s)"

text \<open>The value of a decimal numeral, without any bound.\<close>

definition decimal :: "string \<Rightarrow> int" where
  "decimal s = foldl (\<lambda>acc c. 10 * acc + ((of_char c :: int) - 48)) 0 s"

text \<open>
  \<open>QString::toInt()\<close> on the strings \<open>selectPages\<close> hands to it (see
  \<open>ranges_are_numerals\<close>: non-empty runs of digits). \<open>int\<close> is 32 bits wide: Qt converts to
  64 bits first and returns 0 ("the conversion fails") when the value does not fit an
  \<open>int\<close>. The call passes no \<open>ok\<close> pointer, so the failure is not seen by the caller.
  Strings with a sign or with blanks never reach \<open>toInt\<close> here and are read as failures.
\<close>

definition INT_MAX :: int where
  "INT_MAX = 2147483647"

definition toInt :: "string \<Rightarrow> int" where
  "toInt s = (if s \<noteq> [] \<and> list_all isDigit s \<and> decimal s \<le> INT_MAX then decimal s else 0)"

text \<open>\<open>QString::number(n)\<close> and \<open>QString::arg(int)\<close>: the decimal numeral of an integer.\<close>

definition digitChar :: "nat \<Rightarrow> char" where
  "digitChar d = ''0123456789'' ! d"

fun showNat :: "nat \<Rightarrow> string" where
  "showNat n = (if n < 10 then [digitChar n] else showNat (n div 10) @ [digitChar (n mod 10)])"

definition showInt :: "int \<Rightarrow> string" where
  "showInt i = (if i < 0 then CHR ''-'' # showNat (nat (- i)) else showNat (nat i))"

section \<open>Recognizer::selectPages: the page-range parser\<close>

text \<open>
  \<open>QRegExp validateRegEx("^[\\d,\\-\\s]+$"); validateRegEx.indexIn(text) != -1\<close>:
  the pattern is anchored at both ends, so it matches exactly the non-empty strings of
  digits, commas, dashes and whitespace.
\<close>

definition validateRegEx :: "string \<Rightarrow> bool" where
  "validateRegEx text =
     (text \<noteq> [] \<and> list_all (\<lambda>c. isDigit c \<or> c = CHR '','' \<or> c = CHR ''-'' \<or> isSpace c) text)"

text \<open>
  The \<open>for\<close> loop over the blocks, with the list \<open>pages\<close> as accumulator. The last
  branch is \<open>pages.clear(); break;\<close>. In the range branch the inner loop
  \<open>for(int page = start; page <= end; ++page) pages.append(page)\<close> appends
  \<open>[start..end]\<close> (\<open>end \<le> nPages\<close>, so the counter does not overflow for a page count
  below the largest \<open>int\<close>).
\<close>

fun blocksLoop :: "int \<Rightarrow> string list \<Rightarrow> int list \<Rightarrow> int list" where
  "blocksLoop nPages [] pages = pages"
| "blocksLoop nPages (block # rest) pages =
     (let ranges = split_SkipEmptyParts (CHR ''-'') block in
      if length ranges = 1 then
        (let page = toInt (ranges ! 0) in
         if page > 0 \<and> page \<le> nPages
         then blocksLoop nPages rest (pages @ [page])
         else blocksLoop nPages rest pages)
      else if length ranges = 2 then
        (let start = max 1 (toInt (ranges ! 0));
             end' = min nPages (toInt (ranges ! 1))
         in blocksLoop nPages rest (pages @ [start..end']))
      else [])"

text \<open>One pass of the body of the \<open>while\<close> loop, up to the test \<open>pages.empty()\<close>.\<close>

definition parsePageRange :: "int \<Rightarrow> string \<Rightarrow> int list" where
  "parsePageRange nPages text =
     (if validateRegEx text
      then blocksLoop nPages (split_SkipEmptyParts (CHR '','') (removeSpaces text)) []
      else [])"

text \<open>
  The parse as the specification words it, for a reading \<open>num\<close> of the numerals: a block
  that is one number \<open>n\<close> gives page \<open>n\<close> when \<open>1 \<le> n \<le> nPages\<close>, a block \<open>a-b\<close> gives the
  pages from \<open>max 1 a\<close> to \<open>min nPages b\<close>, and one ill-formed block empties the selection.
\<close>

definition blockParts :: "string \<Rightarrow> string list" where
  "blockParts block = split_SkipEmptyParts (CHR ''-'') block"

definition blockPages :: "(string \<Rightarrow> int) \<Rightarrow> int \<Rightarrow> string \<Rightarrow> int list" where
  "blockPages num nPages block =
     (case blockParts block of
        [n] \<Rightarrow> if 1 \<le> num n \<and> num n \<le> nPages then [num n] else []
      | [a, b] \<Rightarrow> [max 1 (num a)..min nPages (num b)]
      | _ \<Rightarrow> [])"

definition wellFormedBlock :: "string \<Rightarrow> bool" where
  "wellFormedBlock block = (length (blockParts block) = 1 \<or> length (blockParts block) = 2)"

definition spec_pages :: "(string \<Rightarrow> int) \<Rightarrow> int \<Rightarrow> string \<Rightarrow> int list" where
  "spec_pages num nPages text =
     (if \<not> validateRegEx text then []
      else let blocks = split_SkipEmptyParts (CHR '','') (removeSpaces text) in
        if list_all wellFormedBlock blocks
        then concat (map (blockPages num nPages) blocks)
        else [])"

subsection \<open>The dialog loop\<close>

text \<open>
  \<open>while(m_pagesDialog->exec() == QDialog::Accepted)\<close>: each call of \<open>exec()\<close> blocks
  until the user closes the dialog and returns how it was closed. The user's behaviour
  is a list of responses, one per call: the dialog code and the text the line edit holds
  at that moment. When the responses are used up the dialog is open and waiting, and
  \<open>selectPages\<close> has not returned: the result is \<open>None\<close>.

  Of the dialog, the line edit's text and style sheet are kept. A change of the text
  emits \<open>textChanged\<close>, which the constructor connects to
  \<open>clearLineEditPageRangeStyle\<close>. The flag \<open>autodetectLayout\<close> that \<open>selectPages\<close>
  also sets is read from the combo box alone and is left out.
\<close>

datatype DialogCode = Rejected | Accepted

record PageRangeDialog =
  lineEditText :: string
  lineEditStyleSheet :: string

definition highlightStyle :: string where
  "highlightStyle = ''background: #FF7777; color: #FFFFFF;''"

definition clearLineEditPageRangeStyle :: "PageRangeDialog \<Rightarrow> PageRangeDialog" where
  "clearLineEditPageRangeStyle d = d\<lparr>lineEditStyleSheet := ''''\<rparr>"

definition setText :: "string \<Rightarrow> PageRangeDialog \<Rightarrow> PageRangeDialog" where
  "setText t d =
     (if t = lineEditText d then d
      else clearLineEditPageRangeStyle (d\<lparr>lineEditText := t\<rparr>))"

fun selectPages_loop ::
  "int \<Rightarrow> (DialogCode \<times> string) list \<Rightarrow> int list \<Rightarrow> PageRangeDialog
     \<Rightarrow> int list option \<times> PageRangeDialog" where
  "selectPages_loop nPages [] pages d = (None, d)"
| "selectPages_loop nPages ((code, t) # responses) pages d =
     (let d1 = setText t d in
      if code = Accepted then
        (let pages1 = parsePageRange nPages (lineEditText d1) in
         if pages1 = []
         then selectPages_loop nPages responses pages1 (d1\<lparr>lineEditStyleSheet := highlightStyle\<rparr>)
         else (Some pages1, d1))
      else (Some pages, d1))"

definition selectPages ::
  "int \<Rightarrow> (DialogCode \<times> string) list \<Rightarrow> PageRangeDialog \<Rightarrow> int list option \<times> PageRangeDialog" where
  "selectPages nPages responses d =
     (let d0 = setText (''1-'' @ showInt nPages) d;
          (r, d') = selectPages_loop nPages responses [] d0
      in (map_option sort r, d'))"

text \<open>A response that the loop answers by asking again: accepted, with an empty parse.\<close>

definition asksAgain :: "int \<Rightarrow> DialogCode \<times> string \<Rightarrow> bool" where
  "asksAgain nPages r = (fst r = Accepted \<and> parsePageRange nPages (snd r) = [])"

section \<open>Recognizer::recognize and Recognizer::recognizeImage\<close>

text \<open>
  What the two functions do to their collaborators (tesseract, the output editor, the
  main window, message boxes, the clipboard) is recorded as a list of events, in the
  order of the calls. \<open>QMetaObject::invokeMethod\<close> is recorded with the connection type
  the call passes.
\<close>

datatype ConnectionType = QueuedConnection | BlockingQueuedConnection

datatype OutputDestination = Buffer | Clipboard

record QImage =
  bits :: "nat list"
  width :: int
  height :: int
  bytesPerLine :: int

record PageData =
  success :: bool
  filename :: string
  page :: int
  angle :: real
  resolution :: int
  ocrAreas :: "QImage list"

text \<open>
  \<open>OutputEditor::ReadSessionData\<close> is declared outside these files; the fields are the
  ones \<open>recognize\<close> and \<open>recognizeImage\<close> assign.
\<close>

record ReadSessionData =
  rs_file :: string
  rs_page :: int
  rs_angle :: real
  rs_resolution :: int
  rs_prependFile :: bool
  rs_prependPage :: bool

datatype event =
    TessInit string
  | TessSetPageSegMode int
  | TessSetVariable string string
  | TessSetImage QImage
  | TessSetSourceResolution int
  | TessRecognize
  | TessGetUTF8Text
  | InitRead
  | Read ReadSessionData
  | ReadError string
  | FinalizeRead
  | ShowProgress nat
  | HideProgress
  | ResetPageProgress
  | IncreaseProgress
  | InvokePushState ConnectionType string
  | InvokeSetPage ConnectionType int bool
  | InvokePopState ConnectionType
  | MessageBoxCritical string string
  | ClipboardSetText string

text \<open>
  What the displayer shows once \<open>Displayer::setup(&page)\<close> has run: whether it
  succeeded, and what its getters return then (\<open>getOCRAreas\<close> with and without a
  preceding \<open>autodetectOCRAreas\<close>).
\<close>

record DisplayerView =
  setupOk :: bool
  currentImage :: string
  currentPage :: int
  currentAngle :: real
  currentResolution :: int
  selectedOCRAreas :: "QImage list"
  autodetectedOCRAreas :: "QImage list"

text \<open>
  Everything the functions read from outside. \<open>displayer idx page\<close> is the view after the
  \<open>idx\<close>-th call of \<open>setPage\<close>, on \<open>page\<close>. The flag of the progress monitor is set by the
  user interface thread at any time; \<open>monitor.cancelled()\<close> is therefore an oracle, one
  value per place and time it is read: after \<open>Recognize\<close> on area \<open>j\<close> of the \<open>idx\<close>-th
  page, and at the end of the \<open>idx\<close>-th iteration. Nothing relates these values, so every
  course of a cancellation is covered.
\<close>

record Environment =
  tessInitOk :: "string \<Rightarrow> bool"
  curLangPrefix :: string
  checkedPsm :: int
  whitelistChecked :: bool
  whitelistText :: string
  blacklistChecked :: bool
  blacklistText :: string
  ocraddsourcefilename :: bool
  ocraddsourcepage :: bool
  initReadData :: ReadSessionData
  displayer :: "nat \<Rightarrow> int \<Rightarrow> DisplayerView"
  cancelledAfterRecognize :: "nat \<Rightarrow> nat \<Rightarrow> bool"
  cancelledAtPageEnd :: "nat \<Rightarrow> bool"
  shownView :: DisplayerView
  utf8Text :: string

definition newline :: string where
  "newline = [CHR 0x0A]"

text \<open>\<open>Recognizer::setPage\<close>; after a failed setup only \<open>success\<close> is assigned.\<close>

definition setPage :: "Environment \<Rightarrow> nat \<Rightarrow> int \<Rightarrow> bool \<Rightarrow> PageData" where
  "setPage env idx pg autodetectLayout =
     (let v = displayer env idx pg in
      if setupOk v then
        \<lparr>success = True, filename = currentImage v, page = currentPage v,
         angle = currentAngle v, resolution = currentResolution v,
         ocrAreas = (if autodetectLayout then autodetectedOCRAreas v else selectedOCRAreas v)\<rparr>
      else
        \<lparr>success = False, filename = '''', page = 0, angle = 0, resolution = 0, ocrAreas = []\<rparr>)"

text \<open>
  The inner loop \<open>for(const QImage& image : pageData.ocrAreas)\<close>; \<open>j\<close> counts the areas
  done. The resolution handed to tesseract is the one the displayer shows, which is the
  one \<open>setPage\<close> has just read.
\<close>

fun ocrAreasLoop ::
  "Environment \<Rightarrow> bool \<Rightarrow> bool \<Rightarrow> nat \<Rightarrow> int \<Rightarrow> nat \<Rightarrow> QImage list \<Rightarrow> bool \<Rightarrow> bool
     \<Rightarrow> ReadSessionData \<Rightarrow> event list \<Rightarrow> ReadSessionData \<times> event list" where
  "ocrAreasLoop env prependFile prependPage idx res j [] firstChunk newFile rsd tr = (rsd, tr)"
| "ocrAreasLoop env prependFile prependPage idx res j (img # rest) firstChunk newFile rsd tr =
     (let rsd1 = rsd\<lparr>rs_prependPage := prependPage \<and> firstChunk\<rparr>;
          rsd2 = rsd1\<lparr>rs_prependFile := prependFile \<and> (rs_prependPage rsd1 \<or> newFile)\<rparr>;
          tr1 = tr @ [TessSetImage img, TessSetSourceResolution res, TessRecognize];
          tr2 = (if \<not> cancelledAfterRecognize env idx j then tr1 @ [Read rsd2] else tr1)
      in ocrAreasLoop env prependFile prependPage idx res (Suc j) rest False False rsd2 tr2)"

text \<open>
  The state of the outer loop \<open>for(int page : pages)\<close>: the counter \<open>idx\<close>, \<open>prevFile\<close>,
  the failure report \<open>failed\<close>, the session data behind \<open>readSessionData\<close>, and the events
  so far. A page that fails to render takes the \<open>continue\<close>; the \<open>break\<close> is at the end
  of an iteration that ran to its end.
\<close>

record LoopState =
  idx :: nat
  prevFile :: string
  failed :: string
  sessionData :: ReadSessionData
  trace :: "event list"

text \<open>The start of an iteration, up to the return of \<open>setPage\<close>.\<close>

definition beginPage :: "bool \<Rightarrow> nat \<Rightarrow> int \<Rightarrow> LoopState \<Rightarrow> LoopState" where
  "beginPage autodetectLayout npages pg st =
     st\<lparr>idx := Suc (idx st),
        trace := trace st @
          [ResetPageProgress,
           InvokePushState QueuedConnection
             (''Recognizing page '' @ showInt pg @ '' ('' @ showNat (Suc (idx st)) @ '' of ''
                @ showNat npages @ '')''),
           InvokeSetPage BlockingQueuedConnection pg autodetectLayout]\<rparr>"

text \<open>The branch \<open>if(!pageData.success)\<close>, up to its \<open>continue\<close>.\<close>

definition pageFailed :: "int \<Rightarrow> LoopState \<Rightarrow> LoopState" where
  "pageFailed pg st =
     st\<lparr>failed := failed st @ newline @ ''- Page '' @ showInt pg @ '': failed to render page'',
        trace := trace st @ [ReadError (newline @ ''[Failed to recognize page %1]'' @ newline)]\<rparr>"

text \<open>The rest of the iteration for a rendered page, up to \<open>monitor.increaseProgress()\<close>.\<close>

definition pageRendered :: "Environment \<Rightarrow> bool \<Rightarrow> bool \<Rightarrow> PageData \<Rightarrow> LoopState \<Rightarrow> LoopState" where
  "pageRendered env prependFile prependPage pageData st =
     (let rsd1 = (sessionData st)\<lparr>rs_file := filename pageData, rs_page := page pageData,
                    rs_angle := angle pageData, rs_resolution := resolution pageData\<rparr>;
          newFile = (rs_file rsd1 \<noteq> prevFile st);
          r = ocrAreasLoop env prependFile prependPage (idx st) (resolution pageData) 0
                (ocrAreas pageData) True newFile rsd1 (trace st)
      in st\<lparr>prevFile := rs_file rsd1, sessionData := fst r,
            trace := snd r @ [InvokePopState QueuedConnection, IncreaseProgress]\<rparr>)"

fun pagesLoop ::
  "Environment \<Rightarrow> bool \<Rightarrow> bool \<Rightarrow> bool \<Rightarrow> nat \<Rightarrow> int list \<Rightarrow> LoopState \<Rightarrow> LoopState" where
  "pagesLoop env autodetectLayout prependFile prependPage npages [] st = st"
| "pagesLoop env autodetectLayout prependFile prependPage npages (pg # rest) st =
     (if \<not> success (setPage env (Suc (idx st)) pg autodetectLayout) then
        pagesLoop env autodetectLayout prependFile prependPage npages rest
          (pageFailed pg (beginPage autodetectLayout npages pg st))
      else if cancelledAtPageEnd env (Suc (idx st)) then
        pageRendered env prependFile prependPage (setPage env (Suc (idx st)) pg autodetectLayout)
          (beginPage autodetectLayout npages pg st)
      else
        pagesLoop env autodetectLayout prependFile prependPage npages rest
          (pageRendered env prependFile prependPage (setPage env (Suc (idx st)) pg autodetectLayout)
             (beginPage autodetectLayout npages pg st)))"

text \<open>
  \<open>Recognizer::recognize\<close>. \<open>initTesseract\<close> is the call of \<open>TessBaseAPI::Init\<close>, whose
  answer is the oracle \<open>tessInitOk\<close>. When \<open>ok\<close> is false the function has no \<open>else\<close>
  branch. \<open>Utils::busyTask\<close> runs the loop on the worker thread.
\<close>

definition recognize :: "Environment \<Rightarrow> int list \<Rightarrow> bool \<Rightarrow> event list" where
  "recognize env pages autodetectLayout =
     (let prependFile = (length pages > 1 \<and> ocraddsourcefilename env);
          prependPage = (length pages > 1 \<and> ocraddsourcepage env);
          ok = tessInitOk env (curLangPrefix env)
      in if ok then
           (let tr0 = [TessInit (curLangPrefix env), TessSetPageSegMode (checkedPsm env)]
                  @ (if whitelistChecked env
                     then [TessSetVariable ''tessedit_char_whitelist'' (whitelistText env)] else [])
                  @ (if blacklistChecked env
                     then [TessSetVariable ''tessedit_char_blacklist'' (blacklistText env)] else [])
                  @ [InitRead, ShowProgress (length pages)];
                st = pagesLoop env autodetectLayout prependFile prependPage (length pages) pages
                       \<lparr>idx = 0, prevFile = '''', failed = '''',
                        sessionData = initReadData env, trace = tr0\<rparr>;
                tr1 = trace st @ [HideProgress, FinalizeRead]
            in if failed st \<noteq> ''''
               then tr1 @ [MessageBoxCritical ''Recognition errors occurred''
                             (''The following errors occurred:'' @ failed st)]
               else tr1)
         else [TessInit (curLangPrefix env)])"

text \<open>
  \<open>Recognizer::recognizeImage\<close>, with its return value. The monitor is read once, after
  \<open>Recognize\<close>: the oracle at page 0, area 0.
\<close>

definition recognizeImage :: "Environment \<Rightarrow> QImage \<Rightarrow> OutputDestination \<Rightarrow> bool \<times> event list" where
  "recognizeImage env img dest =
     (let ok = tessInitOk env (curLangPrefix env) in
      if \<not> ok then
        (False, [TessInit (curLangPrefix env),
                 MessageBoxCritical ''Recognition errors occurred'' ''Failed to initialize tesseract''])
      else
        (let tr0 = [TessInit (curLangPrefix env), TessSetImage img, ShowProgress 1];
             cancelled = cancelledAfterRecognize env 0 0;
             tr1 = (case dest of
                      Buffer \<Rightarrow>
                        (let rsd = (initReadData env)\<lparr>rs_file := currentImage (shownView env),
                                     rs_page := currentPage (shownView env),
                                     rs_angle := currentAngle (shownView env),
                                     rs_resolution := currentResolution (shownView env)\<rparr>
                         in tr0 @ [InitRead, TessRecognize]
                              @ (if \<not> cancelled then [Read rsd] else []) @ [FinalizeRead])
                    | Clipboard \<Rightarrow>
                        tr0 @ [TessRecognize]
                          @ (if \<not> cancelled then [TessGetUTF8Text, ClipboardSetText (utf8Text env)] else []))
         in (True, tr1 @ [HideProgress])))"

subsection \<open>The course of the loop, as the specification words it\<close>

text \<open>
  The pages are numbered from 1 in list order, as \<open>idx\<close> does. The loop stops after a
  page that rendered and at whose end the monitor is seen cancelled; it visits the pages
  up to and including the first such page.
\<close>

definition numbered :: "int list \<Rightarrow> (nat \<times> int) list" where
  "numbered pages = zip [1..<Suc (length pages)] pages"

definition rendered :: "Environment \<Rightarrow> bool \<Rightarrow> nat \<times> int \<Rightarrow> bool" where
  "rendered env autodetectLayout ip = success (setPage env (fst ip) (snd ip) autodetectLayout)"

definition stopsAfter :: "Environment \<Rightarrow> bool \<Rightarrow> nat \<times> int \<Rightarrow> bool" where
  "stopsAfter env autodetectLayout ip =
     (rendered env autodetectLayout ip \<and> cancelledAtPageEnd env (fst ip))"

definition takeUntil :: "('a \<Rightarrow> bool) \<Rightarrow> 'a list \<Rightarrow> 'a list" where
  "takeUntil P xs = take (Suc (length (takeWhile (\<lambda>x. \<not> P x) xs))) xs"

definition visitedPages :: "Environment \<Rightarrow> bool \<Rightarrow> int list \<Rightarrow> (nat \<times> int) list" where
  "visitedPages env autodetectLayout pages =
     takeUntil (stopsAfter env autodetectLayout) (numbered pages)"

definition failedPages :: "Environment \<Rightarrow> bool \<Rightarrow> int list \<Rightarrow> int list" where
  "failedPages env autodetectLayout pages =
     map snd (filter (\<lambda>ip. \<not> rendered env autodetectLayout ip) (visitedPages env autodetectLayout pages))"

subsection \<open>Views of the event list\<close>

text \<open>
  The pages visited from a loop state whose counter is \<open>i\<close>; from \<open>i = 0\<close> these are
  \<open>visitedPages\<close> (lemma \<open>visitedFrom_visitedPages\<close>).
\<close>

fun visitedFrom :: "Environment \<Rightarrow> bool \<Rightarrow> nat \<Rightarrow> int list \<Rightarrow> (nat \<times> int) list" where
  "visitedFrom env autodetectLayout i [] = []"
| "visitedFrom env autodetectLayout i (pg # rest) =
     (Suc i, pg) # (if stopsAfter env autodetectLayout (Suc i, pg) then []
                    else visitedFrom env autodetectLayout (Suc i) rest)"

text \<open>The work on the pages: the calls of \<open>setPage\<close>, \<open>SetImage\<close> and \<open>Recognize\<close>.\<close>

fun isPageWork :: "event \<Rightarrow> bool" where
  "isPageWork (InvokeSetPage c pg b) = True"
| "isPageWork (TessSetImage img) = True"
| "isPageWork TessRecognize = True"
| "isPageWork e = False"

definition pageWork :: "Environment \<Rightarrow> bool \<Rightarrow> nat \<times> int \<Rightarrow> event list" where
  "pageWork env autodetectLayout ip =
     InvokeSetPage BlockingQueuedConnection (snd ip) autodetectLayout #
     (if rendered env autodetectLayout ip
      then concat (map (\<lambda>img. [TessSetImage img, TessRecognize])
                     (ocrAreas (setPage env (fst ip) (snd ip) autodetectLayout)))
      else [])"

text \<open>The calls into the output editor, and the calls of \<open>setPage\<close> between them.\<close>

datatype SessionCall = CallInitRead | CallSetPage int | CallRead | CallReadError | CallFinalizeRead

fun sessionCall :: "event \<Rightarrow> SessionCall option" where
  "sessionCall InitRead = Some CallInitRead"
| "sessionCall (InvokeSetPage c pg b) = Some (CallSetPage pg)"
| "sessionCall (Read rsd) = Some CallRead"
| "sessionCall (ReadError msg) = Some CallReadError"
| "sessionCall FinalizeRead = Some CallFinalizeRead"
| "sessionCall e = None"

definition sessionCalls :: "event list \<Rightarrow> SessionCall list" where
  "sessionCalls tr = List.map_filter sessionCall tr"

definition pageSessionCalls :: "Environment \<Rightarrow> bool \<Rightarrow> nat \<times> int \<Rightarrow> SessionCall list" where
  "pageSessionCalls env autodetectLayout ip =
     CallSetPage (snd ip) #
     (if rendered env autodetectLayout ip
      then map (\<lambda>j. CallRead)
             (filter (\<lambda>j. \<not> cancelledAfterRecognize env (fst ip) j)
                [0..<length (ocrAreas (setPage env (fst ip) (snd ip) autodetectLayout))])
      else [CallReadError])"

text \<open>The handling of failures: \<open>setPage\<close>, \<open>readError\<close> and the message boxes.\<close>

fun isFailureHandling :: "event \<Rightarrow> bool" where
  "isFailureHandling (InvokeSetPage c pg b) = True"
| "isFailureHandling (ReadError msg) = True"
| "isFailureHandling (MessageBoxCritical title msg) = True"
| "isFailureHandling e = False"

definition readErrorMessage :: string where
  "readErrorMessage = newline @ ''[Failed to recognize page %1]'' @ newline"

definition failureEntry :: "int \<Rightarrow> string" where
  "failureEntry pg = newline @ ''- Page '' @ showInt pg @ '': failed to render page''"

definition failureReport :: "Environment \<Rightarrow> bool \<Rightarrow> int list \<Rightarrow> string" where
  "failureReport env autodetectLayout pages =
     concat (map failureEntry (failedPages env autodetectLayout pages))"

definition pageFailureHandling :: "Environment \<Rightarrow> bool \<Rightarrow> nat \<times> int \<Rightarrow> event list" where
  "pageFailureHandling env autodetectLayout ip =
     InvokeSetPage BlockingQueuedConnection (snd ip) autodetectLayout #
     (if rendered env autodetectLayout ip then [] else [ReadError readErrorMessage])"

text \<open>The invocations across threads, with the method called and the connection type.\<close>

fun invocation :: "event \<Rightarrow> (string \<times> ConnectionType) option" where
  "invocation (InvokePushState c msg) = Some (''pushState'', c)"
| "invocation (InvokeSetPage c pg b) = Some (''setPage'', c)"
| "invocation (InvokePopState c) = Some (''popState'', c)"
| "invocation e = None"

definition invocations :: "event list \<Rightarrow> (string \<times> ConnectionType) list" where
  "invocations tr = List.map_filter invocation tr"

definition pageInvocations :: "Environment \<Rightarrow> bool \<Rightarrow> nat \<times> int \<Rightarrow> (string \<times> ConnectionType) list" where
  "pageInvocations env autodetectLayout ip =
     [(''pushState'', QueuedConnection), (''setPage'', BlockingQueuedConnection)]
     @ (if rendered env autodetectLayout ip then [(''popState'', QueuedConnection)] else [])"

text \<open>Message boxes.\<close>

fun isMessageBox :: "event \<Rightarrow> bool" where
  "isMessageBox (MessageBoxCritical title msg) = True"
| "isMessageBox e = False"

subsection \<open>A sample session\<close>

text \<open>
  A document of four pages for the examples below. Every page has the same two OCR
  areas; page 2 fails to render; the monitor is seen cancelled from the second area of
  the third page on.
\<close>

definition areaA :: QImage where
  "areaA = \<lparr>bits = [0, 0, 0, 255], width = 1, height = 1, bytesPerLine = 4\<rparr>"

definition areaB :: QImage where
  "areaB = \<lparr>bits = [255, 255, 255, 255, 0, 0, 0, 255], width = 2, height = 1, bytesPerLine = 8\<rparr>"

definition sampleView :: "int \<Rightarrow> DisplayerView" where
  "sampleView pg =
     \<lparr>setupOk = (pg \<noteq> 2), currentImage = ''scan.pdf'', currentPage = pg, currentAngle = 0,
      currentResolution = 300, selectedOCRAreas = [areaA, areaB], autodetectedOCRAreas = [areaA]\<rparr>"

definition sampleEnv :: Environment where
  "sampleEnv =
     \<lparr>tessInitOk = (\<lambda>lang. lang = ''eng''), curLangPrefix = ''eng'', checkedPsm = 6,
      whitelistChecked = False, whitelistText = '''', blacklistChecked = True, blacklistText = ''|'',
      ocraddsourcefilename = True, ocraddsourcepage = True,
      initReadData = \<lparr>rs_file = '''', rs_page = 0, rs_angle = 0, rs_resolution = 0,
                       rs_prependFile = False, rs_prependPage = False\<rparr>,
      displayer = (\<lambda>i pg. sampleView pg),
      cancelledAfterRecognize = (\<lambda>i j. i = 3 \<and> 1 \<le> j),
      cancelledAtPageEnd = (\<lambda>i. 3 \<le> i),
      shownView = sampleView 1, utf8Text = ''text''\<rparr>"

text \<open>The same session with a language that tesseract cannot load.\<close>

definition brokenEnv :: Environment where
  "brokenEnv = sampleEnv\<lparr>curLangPrefix := ''xyz''\<rparr>"

section \<open>Recognizer::setMultiLanguage\<close>

text \<open>
  \<open>QString::left(n)\<close> is the whole string when \<open>n\<close> is negative or not less than the
  length; \<open>QString::indexOf(ch)\<close> is \<open>-1\<close> when the character does not occur;
  \<open>QStringList::join(sep)\<close> puts the separator between neighbours.
\<close>

definition left :: "int \<Rightarrow> string \<Rightarrow> string" where
  "left n s = (if n < 0 \<or> int (length s) \<le> n then s else take (nat n) s)"

fun indexOf :: "char \<Rightarrow> string \<Rightarrow> int" where
  "indexOf ch [] = - 1"
| "indexOf ch (c # cs) =
     (if c = ch then 0 else (let i = indexOf ch cs in if i < 0 then - 1 else i + 1))"

fun join :: "string \<Rightarrow> string list \<Rightarrow> string" where
  "join sep [] = []"
| "join sep [x] = x"
| "join sep (x # y # zs) = x @ sep @ join sep (y # zs)"

text \<open>
  An action of the check group \<open>m_langMenuCheckGroup\<close>, with its check mark and its data
  (the language prefix \<open>updateLanguagesMenu\<close> stores in it); a \<open>Config::Lang\<close>; and what
  \<open>setMultiLanguage\<close> writes: the check mark of the "Multilingual" action, the labels,
  the current language, the setting "language" and the signal \<open>languageChanged\<close>.
\<close>

record QAction =
  isChecked :: bool
  actionData :: string

record Lang =
  lang_prefix :: string
  lang_code :: string
  lang_name :: string

record RecognizerState =
  multilingualChecked :: bool
  m_modeLabel :: string
  m_langLabel :: string
  toolButtonRecognizeText :: string
  m_curLang :: Lang
  languageSetting :: string
  languageChanged :: "Lang list"

text \<open>The loop \<open>for(QAction* action : m_langMenuCheckGroup->actions())\<close>.\<close>

fun collectLangs :: "QAction list \<Rightarrow> string \<Rightarrow> string" where
  "collectLangs [] langs = langs"
| "collectLangs (action # actions) langs =
     collectLangs actions (if isChecked action then langs @ actionData action @ ''+'' else langs)"

definition setMultiLanguage :: "QAction list \<Rightarrow> RecognizerState \<Rightarrow> RecognizerState" where
  "setMultiLanguage actions st =
     (let langs0 = collectLangs actions [];
          langs1 = (if langs0 = [] then ''eng+'' else langs0);
          langs = left (int (length langs1) - 1) langs1;
          lang = \<lparr>lang_prefix = langs, lang_code = '''', lang_name = ''Multilingual''\<rparr>
      in st\<lparr>multilingualChecked := True,
            m_langLabel := langs,
            toolButtonRecognizeText := m_modeLabel st @ newline @ langs,
            m_curLang := lang,
            languageSetting := langs @ '':'',
            languageChanged := languageChanged st @ [lang]\<rparr>)"

definition checkedData :: "QAction list \<Rightarrow> string list" where
  "checkedData actions = map actionData (filter isChecked actions)"

definition sampleState :: RecognizerState where
  "sampleState =
     \<lparr>multilingualChecked = False, m_modeLabel = ''Recognize all'', m_langLabel = ''English'',
      toolButtonRecognizeText = ''Recognize all'' @ newline @ ''English'',
      m_curLang = \<lparr>lang_prefix = ''eng'', lang_code = ''en_US'', lang_name = ''English''\<rparr>,
      languageSetting = ''eng:en_US'', languageChanged = []\<rparr>"

section \<open>MainWindow::VersionCheckThread::run and MainWindow::checkVersion\<close>

text \<open>
  \<open>QRegExp pat(R"(^[\d+\.]+\d+$)"); pat.exactMatch(newver)\<close>: inside the brackets the
  plus sign stands for itself, so the string is a non-empty run of digits, plus signs
  and dots followed by a non-empty run of digits; \<open>k\<close> is where the second run starts.
\<close>

definition versionPat_exactMatch :: "string \<Rightarrow> bool" where
  "versionPat_exactMatch s =
     list_ex (\<lambda>k. list_all (\<lambda>c. isDigit c \<or> c = CHR ''+'' \<or> c = CHR ''.'') (take k s)
                  \<and> list_all isDigit (drop k s))
       [1..<length s]"

text \<open>
  The thread's \<open>run\<close>: from the downloaded text and the old value of \<open>m_newestVersion\<close> to
  its new value. A failed download is the empty text.
\<close>

definition VersionCheckThread_run :: "string \<Rightarrow> string \<Rightarrow> string" where
  "VersionCheckThread_run downloaded m_newestVersion =
     (let newver = removeSpaces downloaded in
      if versionPat_exactMatch newver then newver else m_newestVersion)"

text \<open>
  \<open>QString::compare\<close>, case sensitive: the code units are compared from the left, the
  first difference decides, and of a string and its proper prefix the longer is greater.
\<close>

fun QString_compare :: "string \<Rightarrow> string \<Rightarrow> int" where
  "QString_compare [] [] = 0"
| "QString_compare [] (b # bs) = - 1"
| "QString_compare (a # as) [] = 1"
| "QString_compare (a # as) (b # bs) =
     (if a = b then QString_compare as bs else int (of_char a) - int (of_char b))"

text \<open>
  \<open>checkVersion\<close>, with \<open>PACKAGE_VERSION\<close> as a parameter: the notifications it adds,
  each with its title, its text and the labels of its actions.
\<close>

definition checkVersion :: "string \<Rightarrow> string \<Rightarrow> (string \<times> string \<times> string list) list" where
  "checkVersion PACKAGE_VERSION newver =
     (if newver = [] then []
      else if QString_compare newver PACKAGE_VERSION > 0 then
        [(''New version'', ''gImageReader '' @ newver @ '' is available'',
          [''Download'', ''Changelog'', ''Don'' @ [CHR 0x27] @ ''t notify again''])]
      else [])"

text \<open>The order "plain lexicographic" names: by code unit, a proper prefix first.\<close>

definition lexLess :: "string \<Rightarrow> string \<Rightarrow> bool" where
  "lexLess a b = ((a, b) \<in> lexord {(x, y). (of_char x :: nat) < of_char y})"

section \<open>MainWindow::dictionaryAutoinstall\<close>

text \<open>
  The two patterns the function builds from \<open>langCode\<close>, which is taken to consist of
  letters (it is pasted into the pattern as it is):
  \<open>QRegExp langPat(QString(">(%1_?[A-Z]*)<").arg(langCode))\<close> and
  \<open>QRegExp dictPat(QString(">(%1_?[\\w_]*\\.(dic|aff))<").arg(langCode))\<close>.
\<close>

datatype QRegExp = LangPat string | DictPat string

text \<open>
  A match that starts at the head of \<open>s\<close>: the text of \<open>cap(1)\<close> and \<open>matchedLength()\<close>.
  The greedy runs leave no choice. In \<open>langPat\<close>, what follows the optional underscore
  and the capitals must be \<open><\<close>, which is neither. In \<open>dictPat\<close> the underscore is a word
  character, so \<open>_?[\w_]*\<close> takes the longest run of word characters, and what follows
  must be the dot.
\<close>

fun matchAt :: "QRegExp \<Rightarrow> string \<Rightarrow> (string \<times> nat) option" where
  "matchAt pat [] = None"
| "matchAt (LangPat langCode) (c # r) =
     (if c = CHR ''>'' \<and> take (length langCode) r = langCode then
        (let r1 = drop (length langCode) r;
             us = takeWhile (\<lambda>x. x = CHR ''_'') (take 1 r1);
             r2 = drop (length us) r1;
             caps = takeWhile isUpper r2;
             r3 = dropWhile isUpper r2
         in if take 1 r3 = ''<''
            then Some (langCode @ us @ caps, length langCode + length us + length caps + 2)
            else None)
      else None)"
| "matchAt (DictPat langCode) (c # r) =
     (if c = CHR ''>'' \<and> take (length langCode) r = langCode then
        (let r1 = drop (length langCode) r;
             w = takeWhile isWord r1;
             r2 = dropWhile isWord r1;
             ext = take 4 r2
         in if (ext = ''.dic'' \<or> ext = ''.aff'') \<and> take 1 (drop 4 r2) = ''<''
            then Some (langCode @ w @ ext, length langCode + length w + 6)
            else None)
      else None)"

text \<open>
  \<open>QRegExp::indexIn(str, offset)\<close>: the first position from \<open>offset\<close> on at which the
  pattern matches, with the capture and the length of the match; \<open>None\<close> is \<open>-1\<close>.
\<close>

fun searchFrom :: "QRegExp \<Rightarrow> string \<Rightarrow> nat \<Rightarrow> (nat \<times> string \<times> nat) option" where
  "searchFrom pat [] pos = None"
| "searchFrom pat (c # cs) pos =
     (case matchAt pat (c # cs) of
        Some (cap, len) \<Rightarrow> Some (pos, cap, len)
      | None \<Rightarrow> searchFrom pat cs (Suc pos))"

definition indexIn :: "QRegExp \<Rightarrow> string \<Rightarrow> nat \<Rightarrow> (nat \<times> string \<times> nat) option" where
  "indexIn pat str offset = searchFrom pat (drop offset str) offset"

text \<open>A match is at or after the offset, inside the string, and not empty.\<close>

lemma matchAt_len: "matchAt pat s = Some (cap, len) \<Longrightarrow> 0 < len"
  by (induction pat s rule: matchAt.induct) (auto simp: Let_def split: if_splits)

lemma searchFrom_bounds:
  "searchFrom pat s pos = Some (p, cap, len) \<Longrightarrow> pos \<le> p \<and> p < pos + length s \<and> 0 < len"
proof (induction s arbitrary: pos)
  case Nil
  then show ?case by simp
next
  case (Cons c cs)
  show ?case
  proof (cases "matchAt pat (c # cs)")
    case None
    with Cons.prems have "searchFrom pat cs (Suc pos) = Some (p, cap, len)" by simp
    from Cons.IH[OF this] show ?thesis by simp
  next
    case (Some m)
    obtain cap' len' where m: "m = (cap', len')" by (cases m)
    with Some Cons.prems have "p = pos" "len = len'" by simp_all
    with Some m matchAt_len[of pat "c # cs" cap' len'] show ?thesis by simp
  qed
qed

lemma indexIn_advance:
  "indexIn pat str offset = Some (p, cap, len) \<Longrightarrow> length str - (p + len) < length str - offset"
proof -
  assume "indexIn pat str offset = Some (p, cap, len)"
  then have "offset \<le> p \<and> p < offset + length (drop offset str) \<and> 0 < len"
    unfolding indexIn_def by (rule searchFrom_bounds)
  then show ?thesis by auto
qed

text \<open>
  Both loops of the function have the shape
  \<open>while((pos = pat.indexIn(str, pos)) != -1) { cap = pat.cap(1); ...; pos += pat.matchedLength(); }\<close>
  with a body that does not touch \<open>pos\<close>. The loop ends because every match is not empty.
\<close>

function forEachMatch :: "QRegExp \<Rightarrow> (string \<Rightarrow> 's \<Rightarrow> 's) \<Rightarrow> string \<Rightarrow> nat \<Rightarrow> 's \<Rightarrow> 's" where
  "forEachMatch pat body str pos st =
     (case indexIn pat str pos of
        None \<Rightarrow> st
      | Some (p, cap, len) \<Rightarrow> forEachMatch pat body str (p + len) (body cap st))"
  by pat_completeness auto
termination
  by (relation "measure (\<lambda>(pat, body, str, pos, st). length str - pos)")
     (auto dest: indexIn_advance)

declare forEachMatch.simps [simp del]

text \<open>The captures of the successive matches from \<open>pos\<close> on.\<close>

function matchesFrom :: "QRegExp \<Rightarrow> string \<Rightarrow> nat \<Rightarrow> string list" where
  "matchesFrom pat str pos =
     (case indexIn pat str pos of
        None \<Rightarrow> []
      | Some (p, cap, len) \<Rightarrow> cap # matchesFrom pat str (p + len))"
  by pat_completeness auto
termination
  by (relation "measure (\<lambda>(pat, str, pos). length str - pos)")
     (auto dest: indexIn_advance)

declare matchesFrom.simps [simp del]

text \<open>
  What the function does to the main window, the file system and the user is a list
  of events; \<open>CriticalOkHelp\<close> is the critical box with the buttons Ok and Help.
\<close>

datatype mw_event =
    PushState string
  | PopState
  | Critical string string
  | CriticalOkHelp string string
  | Information string string
  | ShowHelp string
  | UpdateLanguagesMenu
  | WriteFile string string
  | InstallProvideFiles "string list"

text \<open>
  What the function reads from outside. \<open>Utils::download\<close> answers with the content or
  with a null byte array (\<open>None\<close>) and leaves its complaints in \<open>messages\<close>; the network
  and the file system are taken not to change during the run.
\<close>

record InstallEnv =
  isWindows :: bool
  isLinux :: bool
  useSystemDataLocations :: bool
  selectedLanguageCode :: string
  searchLangCultures :: "string \<Rightarrow> string list"
  packageKitError :: "string option"
  spellingLocation :: string
  mkpathOk :: bool
  downloadData :: "string \<Rightarrow> string option"
  downloadMessages :: string
  openWriteOnly :: "string \<Rightarrow> bool"
  helpChosen :: bool

record InstallState =
  downloadedFiles :: "string list"
  failedFiles :: "string list"
  events :: "mw_event list"

definition quoted :: "string \<Rightarrow> string" where
  "quoted s = [CHR 0x27] @ s @ [CHR 0x27]"

definition url :: string where
  "url = ''https://cgit.freedesktop.org/libreoffice/dictionaries/tree/''"

definition plainurl :: string where
  "plainurl = ''https://cgit.freedesktop.org/libreoffice/dictionaries/plain/''"

definition absoluteFilePath :: "InstallEnv \<Rightarrow> string \<Rightarrow> string" where
  "absoluteFilePath env fileName = spellingLocation env @ ''/'' @ fileName"

text \<open>\<open>QString(QByteArray)\<close>: a null byte array gives the empty string.\<close>

definition toQString :: "string option \<Rightarrow> string" where
  "toQString d = (case d of None \<Rightarrow> [] | Some s \<Rightarrow> s)"

text \<open>The body of the inner loop, for the file name the pattern captured.\<close>

definition installDict :: "InstallEnv \<Rightarrow> string \<Rightarrow> string \<Rightarrow> InstallState \<Rightarrow> InstallState" where
  "installDict env lang fileName st =
     (let st1 = st\<lparr>events := events st @ [PushState (''Downloading '' @ quoted fileName @ ''...'')]\<rparr>;
          st2 = (case downloadData env (plainurl @ lang @ ''/'' @ fileName) of
                   Some d \<Rightarrow>
                     if openWriteOnly env (absoluteFilePath env fileName)
                     then st1\<lparr>events := events st1 @ [WriteFile (absoluteFilePath env fileName) d],
                              downloadedFiles := downloadedFiles st1 @ [fileName]\<rparr>
                     else st1\<lparr>failedFiles := failedFiles st1 @ [fileName]\<rparr>
                 | None \<Rightarrow> st1\<lparr>failedFiles := failedFiles st1 @ [fileName]\<rparr>)
      in st2\<lparr>events := events st2 @ [PopState]\<rparr>)"

text \<open>The body of the outer loop, for the directory name the pattern captured.\<close>

definition installLang :: "InstallEnv \<Rightarrow> string \<Rightarrow> string \<Rightarrow> InstallState \<Rightarrow> InstallState" where
  "installLang env langCode lang st =
     (let dictHtml = toQString (downloadData env (url @ lang @ ''/'')) in
      if dictHtml = [] then st
      else forEachMatch (DictPat langCode) (installDict env lang) dictHtml 0 st)"

definition helpOffer :: "InstallEnv \<Rightarrow> mw_event list" where
  "helpOffer env = (if helpChosen env then [ShowHelp ''#InstallSpelling''] else [])"

definition failedMessage :: "string list \<Rightarrow> string" where
  "failedMessage fs =
     ''The following dictionaries could not be downloaded:'' @ newline @ join newline fs
     @ newline @ newline @ ''Check the connectivity and directory permissions.'' @ newline
     @ ''Hint: If you don'' @ [CHR 0x27] @ ''t have write permissions in system folders, ''
     @ ''you can switch to user paths in the settings dialog.''"

definition installedMessage :: "string list \<Rightarrow> string" where
  "installedMessage fs = ''The following dictionary files were installed:'' @ newline @ join newline fs"

definition notFoundMessage :: "string \<Rightarrow> string" where
  "notFoundMessage code = ''No spelling dictionaries found for '' @ quoted code @ ''.''"

text \<open>
  \<open>MainWindow::dictionaryAutoinstall\<close>. The first branch is the one through PackageKit,
  compiled on Linux only; the second is the download.
\<close>

definition dictionaryAutoinstall :: "InstallEnv \<Rightarrow> mw_event list" where
  "dictionaryAutoinstall env =
     (let code = selectedLanguageCode env;
          tr0 = [PushState (''Installing spelling dictionary for '' @ quoted code)]
      in if \<not> isWindows env \<and> useSystemDataLocations env then
           (if isLinux env then
              tr0 @ [InstallProvideFiles
                       (concat (map (\<lambda>langCulture. [''/usr/share/myspell/'' @ langCulture @ ''.dic'',
                                                     ''/usr/share/hunspell/'' @ langCulture @ ''.dic''])
                                  (searchLangCultures env code)))]
                  @ (case packageKitError env of
                       None \<Rightarrow> []
                     | Some err \<Rightarrow>
                         CriticalOkHelp ''Error'' (''Failed to install spelling dictionary: '' @ err)
                         # helpOffer env)
                  @ [UpdateLanguagesMenu, PopState]
            else tr0)
         else if \<not> mkpathOk env then
           tr0 @ [PopState,
                  CriticalOkHelp ''Error'' ''Failed to create directory for spelling dictionaries.'']
               @ helpOffer env
         else
           (let html = toQString (downloadData env url) in
            if html = [] then
              tr0 @ [PopState,
                     CriticalOkHelp ''Error''
                       (''Could not read '' @ url @ '': '' @ downloadMessages env @ ''.'')]
                  @ helpOffer env
            else
              (let langCode = left (indexOf (CHR ''_'') code) code;
                   st = forEachMatch (LangPat langCode) (installLang env langCode) html 0
                          \<lparr>downloadedFiles = [], failedFiles = [], events = tr0\<rparr>;
                   tr1 = events st @ [PopState]
               in if failedFiles st \<noteq> [] then
                    tr1 @ [Critical ''Error'' (failedMessage (failedFiles st))]
                  else if downloadedFiles st \<noteq> [] then
                    tr1 @ [UpdateLanguagesMenu,
                           Information ''Dictionaries installed'' (installedMessage (downloadedFiles st))]
                  else
                    tr1 @ CriticalOkHelp ''Error'' (notFoundMessage code) # helpOffer env)))"

subsection \<open>The files the download tries, as the specification words it\<close>

text \<open>
  The directories found on the index page, the dictionary files found on the page of
  each directory, and which of these fail: the download gives nothing, or the file in the
  spelling directory cannot be opened for writing.
\<close>

definition takesDownloadPath :: "InstallEnv \<Rightarrow> bool" where
  "takesDownloadPath env = (isWindows env \<or> \<not> useSystemDataLocations env)"

definition langCodeOf :: "InstallEnv \<Rightarrow> string" where
  "langCodeOf env = left (indexOf (CHR ''_'') (selectedLanguageCode env)) (selectedLanguageCode env)"

definition dictionaryFiles :: "InstallEnv \<Rightarrow> (string \<times> string) list" where
  "dictionaryFiles env =
     concat (map (\<lambda>lang. map (Pair lang)
                    (matchesFrom (DictPat (langCodeOf env))
                       (toQString (downloadData env (url @ lang @ ''/''))) 0))
               (matchesFrom (LangPat (langCodeOf env)) (toQString (downloadData env url)) 0))"

definition failsToInstall :: "InstallEnv \<Rightarrow> string \<times> string \<Rightarrow> bool" where
  "failsToInstall env lf =
     (downloadData env (plainurl @ fst lf @ ''/'' @ snd lf) = None
      \<or> \<not> openWriteOnly env (absoluteFilePath env (snd lf)))"

definition failedList :: "InstallEnv \<Rightarrow> string list" where
  "failedList env = map snd (filter (failsToInstall env) (dictionaryFiles env))"

definition downloadedList :: "InstallEnv \<Rightarrow> string list" where
  "downloadedList env = map snd (filter (\<lambda>lf. \<not> failsToInstall env lf) (dictionaryFiles env))"

fun isMessage :: "mw_event \<Rightarrow> bool" where
  "isMessage (Critical title msg) = True"
| "isMessage (CriticalOkHelp title msg) = True"
| "isMessage (Information title msg) = True"
| "isMessage e = False"

text \<open>A sample: two directories for German, one unreadable; one file fails to download.\<close>

definition sampleInstall :: InstallEnv where
  "sampleInstall =
     \<lparr>isWindows = False, isLinux = True, useSystemDataLocations = False,
      selectedLanguageCode = ''de_DE'', searchLangCultures = (\<lambda>code. [code]),
      packageKitError = None, spellingLocation = ''/home/u/.config/enchant/myspell'',
      mkpathOk = True,
      downloadData = (\<lambda>u.
        if u = url then Some ''<a href=x>de</a> <a href=y>de_AT</a> <a href=z>en</a>''
        else if u = url @ ''de/'' then Some ''<a>de_DE.dic</a> <a>de_DE.aff</a> <a>README.txt</a>''
        else if u = plainurl @ ''de/de_DE.dic'' then Some ''words''
        else None),
      downloadMessages = ''timeout'',
      openWriteOnly = (\<lambda>path. True), helpChosen = False\<rparr>"

section \<open>Properties of the page-range parser\<close>

lemma splitOn_pieces: "w \<in> set (splitOn sep s) \<Longrightarrow> set w \<subseteq> set s - {sep}"
proof (induction s arbitrary: w)
  case Nil
  then show ?case by simp
next
  case (Cons c cs)
  then show ?case
    by (fastforce split: if_splits list.splits)
qed

text \<open>
  Whatever reaches \<open>toInt\<close> in \<open>selectPages\<close> is a non-empty run of digits: the validated
  text has only digits, commas, dashes and blanks, and the blanks, commas and dashes are
  removed before the conversion.
\<close>

lemma ranges_are_numerals:
  assumes "validateRegEx text"
    and "block \<in> set (split_SkipEmptyParts (CHR '','') (removeSpaces text))"
    and "r \<in> set (blockParts block)"
  shows "r \<noteq> [] \<and> list_all isDigit r"
proof -
  from assms(2) have b: "set block \<subseteq> set (removeSpaces text) - {CHR '',''}"
    using splitOn_pieces by (auto simp: split_SkipEmptyParts_def)
  from assms(3) have r: "r \<noteq> []" "set r \<subseteq> set block - {CHR ''-''}"
    using splitOn_pieces by (auto simp: blockParts_def split_SkipEmptyParts_def)
  have "\<forall>c \<in> set r. isDigit c"
  proof
    fix c assume "c \<in> set r"
    with r b have c: "c \<in> set text" "\<not> isSpace c" "c \<noteq> CHR '',''" "c \<noteq> CHR ''-''"
      by (auto simp: removeSpaces_def)
    with assms(1) show "isDigit c"
      by (auto simp: validateRegEx_def list_all_iff)
  qed
  with r show ?thesis by (simp add: list_all_iff)
qed

lemma toInt_decimal:
  "s \<noteq> [] \<Longrightarrow> list_all isDigit s \<Longrightarrow> decimal s \<le> INT_MAX \<Longrightarrow> toInt s = decimal s"
  by (simp add: toInt_def)

lemma toInt_overflow: "INT_MAX < decimal s \<Longrightarrow> toInt s = 0"
  by (simp add: toInt_def)

lemma blocksLoop_step:
  "blocksLoop nPages (block # rest) pages =
     (if wellFormedBlock block
      then blocksLoop nPages rest (pages @ blockPages toInt nPages block)
      else [])"
proof (cases "split_SkipEmptyParts (CHR ''-'') block")
  case Nil
  then show ?thesis by (simp add: wellFormedBlock_def blockParts_def)
next
  case (Cons a as)
  note outer = Cons
  show ?thesis
  proof (cases as)
    case Nil
    have "(0 < toInt a) = (1 \<le> toInt a)" by arith
    with Nil outer show ?thesis
      by (simp add: wellFormedBlock_def blockPages_def blockParts_def Let_def)
  next
    case (Cons b bs)
    with outer show ?thesis
      by (cases bs) (simp_all add: wellFormedBlock_def blockPages_def blockParts_def Let_def)
  qed
qed

lemma blocksLoop_spec:
  "blocksLoop nPages blocks pages =
     (if list_all wellFormedBlock blocks
      then pages @ concat (map (blockPages toInt nPages) blocks)
      else [])"
proof (induction blocks arbitrary: pages)
  case Nil
  then show ?case by simp
next
  case (Cons block rest)
  then show ?case by (simp only: blocksLoop_step) simp
qed

lemma parsePageRange_spec_pages: "parsePageRange nPages text = spec_pages toInt nPages text"
  by (simp add: parsePageRange_def spec_pages_def blocksLoop_spec Let_def)

text \<open>
  C1, as stated, reads the numbers of a block as the numerals' values. The code reads a
  numeral above 2147483647 as 0, so at three pages the text \<open>1-9999999999\<close> selects
  nothing, where the stated rule gives the pages 1, 2 and 3.
\<close>

theorem selectPages_parse_overflow_counterexample:
  "parsePageRange 3 ''1-9999999999'' = []
   \<and> spec_pages decimal 3 ''1-9999999999'' = [1, 2, 3]"
  by code_simp

text \<open>
  C1, amended: \<open>selectPages\<close> parses its input as the specification says, with every
  numeral read by \<open>QString::toInt\<close> (its value when that is at most 2147483647, else 0):
  a text that does not match \<open>^[\d,\-\s]+$\<close> selects nothing; otherwise blanks are removed
  and the text is split at commas into blocks; a block of one number \<open>n\<close> contributes \<open>n\<close>
  exactly when \<open>1 \<le> n \<le> nPages\<close>; a block \<open>a-b\<close> contributes the pages from \<open>max 1 a\<close> to
  \<open>min nPages b\<close>; a block with more than two parts, or with none, empties the selection
  whatever the other blocks are.
\<close>

theorem selectPages_parse:
  "parsePageRange nPages text =
     (if validateRegEx text
         \<and> list_all wellFormedBlock (split_SkipEmptyParts (CHR '','') (removeSpaces text))
      then concat (map (blockPages toInt nPages) (split_SkipEmptyParts (CHR '','') (removeSpaces text)))
      else [])"
  by (simp add: parsePageRange_spec_pages spec_pages_def Let_def)

theorem selectPages_parse_witness:
  "parsePageRange 10 ''1, 3-5, 12, 0, 7-'' = [1, 3, 4, 5, 7]
   \<and> validateRegEx ''1, 3-5, 12, 0, 7-''
   \<and> parsePageRange 5 ''2,1-2-3'' = []
   \<and> validateRegEx ''2,1-2-3''"
proof -
  have a: "validateRegEx ''1, 3-5, 12, 0, 7-''" by code_simp
  have b: "validateRegEx ''2,1-2-3''" by code_simp
  have c: "concat (map (blockPages toInt 10)
             (split_SkipEmptyParts (CHR '','') (removeSpaces ''1, 3-5, 12, 0, 7-''))) = [1, 3, 4, 5, 7]"
    by code_simp
  have d: "list_all wellFormedBlock (split_SkipEmptyParts (CHR '','') (removeSpaces ''1, 3-5, 12, 0, 7-''))"
    by code_simp
  have e: "\<not> list_all wellFormedBlock (split_SkipEmptyParts (CHR '','') (removeSpaces ''2,1-2-3''))"
    by code_simp
  show ?thesis
    using selectPages_parse [of 10 "''1, 3-5, 12, 0, 7-''"] selectPages_parse [of 5 "''2,1-2-3''"]
      a b c d e
    by simp
qed

section \<open>Properties of the page-range dialog\<close>

lemma blockPages_range: "p \<in> set (blockPages num nPages block) \<Longrightarrow> 1 \<le> p \<and> p \<le> nPages"
proof (cases "blockParts block")
  case Nil
  assume "p \<in> set (blockPages num nPages block)"
  with Nil show ?thesis by (simp add: blockPages_def)
next
  case (Cons a as)
  assume p: "p \<in> set (blockPages num nPages block)"
  show ?thesis
  proof (cases as)
    case Nil
    with Cons p show ?thesis by (simp add: blockPages_def split: if_splits)
  next
    case inner: (Cons b bs)
    with Cons p show ?thesis by (cases bs) (simp_all add: blockPages_def)
  qed
qed

lemma parsePageRange_range: "p \<in> set (parsePageRange nPages text) \<Longrightarrow> 1 \<le> p \<and> p \<le> nPages"
  using blockPages_range
  by (fastforce simp: parsePageRange_spec_pages spec_pages_def Let_def split: if_splits)

lemma selectPages_loop_range:
  "selectPages_loop nPages rs pages d = (Some ps, d') \<Longrightarrow>
   (\<forall>p \<in> set pages. 1 \<le> p \<and> p \<le> nPages) \<Longrightarrow> (\<forall>p \<in> set ps. 1 \<le> p \<and> p \<le> nPages)"
proof (induction nPages rs pages d rule: selectPages_loop.induct)
  case (1 nPages pages d)
  then show ?case by simp
next
  case (2 nPages code t responses pages d)
  show ?case
  proof (cases "code = Accepted")
    case True
    show ?thesis
    proof (cases "parsePageRange nPages (lineEditText (setText t d)) = []")
      case True
      with \<open>code = Accepted\<close> 2 show ?thesis by (simp add: Let_def)
    next
      case False
      with \<open>code = Accepted\<close> 2 parsePageRange_range show ?thesis by (auto simp: Let_def)
    qed
  next
    case False
    with 2 show ?thesis by (auto simp: Let_def)
  qed
qed

lemma setText_text [simp]: "lineEditText (setText t d) = t"
  by (simp add: setText_def clearLineEditPageRangeStyle_def)

lemma setText_highlight:
  "(setText t d)\<lparr>lineEditStyleSheet := s\<rparr> = \<lparr>lineEditText = t, lineEditStyleSheet = s\<rparr>"
  by (cases d) (simp add: setText_def clearLineEditPageRangeStyle_def)

lemma selectPages_loop_asksAgain:
  "list_all (asksAgain nPages) rs \<Longrightarrow>
   selectPages_loop nPages (rs @ rest) pages d =
     (if rs = [] then selectPages_loop nPages rest pages d
      else selectPages_loop nPages rest []
             \<lparr>lineEditText = snd (last rs), lineEditStyleSheet = highlightStyle\<rparr>)"
proof (induction rs arbitrary: pages d)
  case Nil
  then show ?case by simp
next
  case (Cons r rs)
  obtain code t where r: "r = (code, t)" by (cases r)
  from Cons.prems have a3: "list_all (asksAgain nPages) rs" by simp
  from Cons.prems r have "asksAgain nPages (code, t)" by simp
  with a3 have a: "code = Accepted" "parsePageRange nPages t = []" "list_all (asksAgain nPages) rs"
    by (simp_all add: asksAgain_def)
  show ?case
  proof (cases "rs = []")
    case True
    with a r show ?thesis by (simp add: Let_def setText_highlight)
  next
    case False
    with a r Cons.IH[OF a(3)] show ?thesis
      by (simp add: Let_def setText_highlight)
  qed
qed

text \<open>
  Every list of responses is of one of the three kinds the theorem below speaks of: all
  of them are answered by asking again, or the first that is not is an accepted one with
  a parse that is not empty, or it is a rejection.
\<close>

lemma responses_cases:
  "list_all (asksAgain nPages) rs
   \<or> (\<exists>pre t rest. rs = pre @ (Accepted, t) # rest \<and> list_all (asksAgain nPages) pre
         \<and> parsePageRange nPages t \<noteq> [])
   \<or> (\<exists>pre t rest. rs = pre @ (Rejected, t) # rest \<and> list_all (asksAgain nPages) pre)"
proof (induction rs)
  case Nil
  then show ?case by simp
next
  case (Cons r rs)
  obtain c t where r: "r = (c, t)" by (cases r)
  show ?case
  proof (cases "asksAgain nPages r")
    case False
    show ?thesis
    proof (cases c)
      case Rejected
      with r have "r # rs = [] @ (Rejected, t) # rs \<and> list_all (asksAgain nPages) []" by simp
      then show ?thesis by blast
    next
      case Accepted
      with False r have "parsePageRange nPages t \<noteq> []" by (simp add: asksAgain_def)
      with Accepted r have "r # rs = [] @ (Accepted, t) # rs \<and> list_all (asksAgain nPages) []
          \<and> parsePageRange nPages t \<noteq> []"
        by simp
      then show ?thesis by blast
    qed
  next
    case True
    from Cons.IH show ?thesis
    proof (elim disjE exE conjE)
      assume "list_all (asksAgain nPages) rs"
      with True show ?thesis by simp
    next
      fix pre t' rest
      assume "rs = pre @ (Accepted, t') # rest" "list_all (asksAgain nPages) pre"
        "parsePageRange nPages t' \<noteq> []"
      with True have "r # rs = (r # pre) @ (Accepted, t') # rest \<and> list_all (asksAgain nPages) (r # pre)
          \<and> parsePageRange nPages t' \<noteq> []"
        by simp
      then show ?thesis by blast
    next
      fix pre t' rest
      assume "rs = pre @ (Rejected, t') # rest" "list_all (asksAgain nPages) pre"
      with True have "r # rs = (r # pre) @ (Rejected, t') # rest \<and> list_all (asksAgain nPages) (r # pre)"
        by simp
      then show ?thesis by blast
    qed
  qed
qed

text \<open>
  C8: a list that \<open>selectPages\<close> returns is sorted and its elements lie between 1 and
  the page count. The responses the loop answers by asking again are the accepted ones
  with an empty parse; the first other response ends the loop. If it is an accepted one,
  the sorted parse of its text is returned, and that is not empty; if it is a rejection,
  the empty list is returned. While every response so far was accepted with an empty
  parse, \<open>selectPages\<close> has not returned and the line edit carries the style sheet
  \<open>background: #FF7777; color: #FFFFFF;\<close> (white on red), which is not the empty style
  sheet that \<open>clearLineEditPageRangeStyle\<close> sets.
\<close>

theorem selectPages_result:
  "(\<forall>pages d'. selectPages nPages rs d = (Some pages, d') \<longrightarrow>
       sorted pages \<and> (\<forall>p \<in> set pages. 1 \<le> p \<and> p \<le> nPages))
   \<and> (list_all (asksAgain nPages) rs \<and> parsePageRange nPages t \<noteq> [] \<longrightarrow>
       fst (selectPages nPages (rs @ (Accepted, t) # rest) d) = Some (sort (parsePageRange nPages t))
       \<and> sort (parsePageRange nPages t) \<noteq> [])
   \<and> (list_all (asksAgain nPages) rs \<longrightarrow>
       fst (selectPages nPages (rs @ (Rejected, t) # rest) d) = Some [])
   \<and> (list_all (asksAgain nPages) rs \<and> rs \<noteq> [] \<longrightarrow>
       fst (selectPages nPages rs d) = None
       \<and> lineEditStyleSheet (snd (selectPages nPages rs d)) = ''background: #FF7777; color: #FFFFFF;''
       \<and> lineEditStyleSheet (snd (selectPages nPages rs d))
           \<noteq> lineEditStyleSheet (clearLineEditPageRangeStyle (snd (selectPages nPages rs d))))"
proof (intro conjI allI impI)
  fix pages d'
  assume r: "selectPages nPages rs d = (Some pages, d')"
  then obtain ps where ps: "selectPages_loop nPages rs [] (setText (''1-'' @ showInt nPages) d) = (Some ps, d')"
    and pages: "pages = sort ps"
    by (auto simp: selectPages_def Let_def split: prod.splits)
  from pages show "sorted pages" by simp
  from selectPages_loop_range[OF ps] pages show "\<forall>p \<in> set pages. 1 \<le> p \<and> p \<le> nPages" by simp
next
  assume a: "list_all (asksAgain nPages) rs \<and> parsePageRange nPages t \<noteq> []"
  then show "fst (selectPages nPages (rs @ (Accepted, t) # rest) d) = Some (sort (parsePageRange nPages t))"
    by (simp add: selectPages_def selectPages_loop_asksAgain Let_def split: prod.splits)
  from a show "sort (parsePageRange nPages t) \<noteq> []"
    by (metis length_0_conv length_sort)
next
  assume "list_all (asksAgain nPages) rs"
  then show "fst (selectPages nPages (rs @ (Rejected, t) # rest) d) = Some []"
    by (simp add: selectPages_def selectPages_loop_asksAgain Let_def split: prod.splits)
next
  assume a: "list_all (asksAgain nPages) rs \<and> rs \<noteq> []"
  with selectPages_loop_asksAgain[of nPages rs "[]" "[]"]
  show "fst (selectPages nPages rs d) = None"
    by (simp add: selectPages_def Let_def split: prod.splits)
  from a selectPages_loop_asksAgain[of nPages rs "[]" "[]"]
  show style: "lineEditStyleSheet (snd (selectPages nPages rs d)) = ''background: #FF7777; color: #FFFFFF;''"
    by (simp add: selectPages_def Let_def highlightStyle_def split: prod.splits)
  show "lineEditStyleSheet (snd (selectPages nPages rs d))
           \<noteq> lineEditStyleSheet (clearLineEditPageRangeStyle (snd (selectPages nPages rs d)))"
    unfolding style by (simp add: clearLineEditPageRangeStyle_def)
qed

theorem selectPages_result_witness:
  "list_all (asksAgain 5) [(Accepted, ''x''), (Accepted, ''9'')]
   \<and> parsePageRange 5 ''4, 1-2'' \<noteq> []
   \<and> selectPages 5 ([(Accepted, ''x''), (Accepted, ''9'')] @ (Accepted, ''4, 1-2'') # [])
          \<lparr>lineEditText = ''7'', lineEditStyleSheet = []\<rparr>
        = (Some [1, 2, 4], \<lparr>lineEditText = ''4, 1-2'', lineEditStyleSheet = []\<rparr>)
   \<and> sorted [1, 2, 4 :: int]
   \<and> list_all (\<lambda>p. 1 \<le> p \<and> p \<le> 5) [1, 2, 4 :: int]
   \<and> fst (selectPages 5 ([(Accepted, ''x''), (Accepted, ''9'')] @ (Rejected, ''1'') # [])
          \<lparr>lineEditText = ''7'', lineEditStyleSheet = []\<rparr>) = Some []
   \<and> fst (selectPages 5 [(Accepted, ''x''), (Accepted, ''9'')]
          \<lparr>lineEditText = ''7'', lineEditStyleSheet = []\<rparr>) = None
   \<and> lineEditStyleSheet (snd (selectPages 5 [(Accepted, ''x''), (Accepted, ''9'')]
          \<lparr>lineEditText = ''7'', lineEditStyleSheet = []\<rparr>)) = ''background: #FF7777; color: #FFFFFF;''"
proof -
  have h1: "list_all (asksAgain 5) [(Accepted, ''x''), (Accepted, ''9'')]" by code_simp
  have h2: "parsePageRange 5 ''4, 1-2'' \<noteq> []" by code_simp
  have h3: "sort (parsePageRange 5 ''4, 1-2'') = [1, 2, 4]" by code_simp
  have h4: "[(Accepted, ''x''), (Accepted, ''9'')] \<noteq> []" by simp
  have e: "selectPages 5 ([(Accepted, ''x''), (Accepted, ''9'')] @ (Accepted, ''4, 1-2'') # [])
          \<lparr>lineEditText = ''7'', lineEditStyleSheet = []\<rparr>
        = (Some [1, 2, 4], \<lparr>lineEditText = ''4, 1-2'', lineEditStyleSheet = []\<rparr>)"
    by code_simp
  from selectPages_result [of 5 "[(Accepted, ''x''), (Accepted, ''9'')] @ (Accepted, ''4, 1-2'') # []"
      "\<lparr>lineEditText = ''7'', lineEditStyleSheet = []\<rparr>"] e
  have s: "sorted [1, 2, 4 :: int] \<and> (\<forall>p \<in> set [1, 2, 4 :: int]. 1 \<le> p \<and> p \<le> 5)"
    by blast
  then have s': "sorted [1, 2, 4 :: int]" "list_all (\<lambda>p. 1 \<le> p \<and> p \<le> 5) [1, 2, 4 :: int]"
    unfolding list_all_iff by blast+
  from selectPages_result [of 5 "[(Accepted, ''x''), (Accepted, ''9'')]"
      "\<lparr>lineEditText = ''7'', lineEditStyleSheet = []\<rparr>" "''1''" "[]"] h1
  have b: "fst (selectPages 5 ([(Accepted, ''x''), (Accepted, ''9'')] @ (Rejected, ''1'') # [])
          \<lparr>lineEditText = ''7'', lineEditStyleSheet = []\<rparr>) = Some []"
    by blast
  from selectPages_result [of 5 "[(Accepted, ''x''), (Accepted, ''9'')]"
      "\<lparr>lineEditText = ''7'', lineEditStyleSheet = []\<rparr>" "''1''" "[]"] h1 h4
  have c: "fst (selectPages 5 [(Accepted, ''x''), (Accepted, ''9'')]
          \<lparr>lineEditText = ''7'', lineEditStyleSheet = []\<rparr>) = None
   \<and> lineEditStyleSheet (snd (selectPages 5 [(Accepted, ''x''), (Accepted, ''9'')]
          \<lparr>lineEditText = ''7'', lineEditStyleSheet = []\<rparr>)) = ''background: #FF7777; color: #FFFFFF;''"
    by blast
  from h1 h2 e s' b c show ?thesis by blast
qed

section \<open>Properties of the recognition loop\<close>

subsection \<open>The loop and its views\<close>

lemma takeUntil_Cons: "takeUntil P (x # xs) = x # (if P x then [] else takeUntil P xs)"
  by (simp add: takeUntil_def)

lemma visitedFrom_zip:
  "visitedFrom env a i pages =
     takeUntil (stopsAfter env a) (zip [Suc i..<Suc i + length pages] pages)"
proof (induction pages arbitrary: i)
  case Nil
  then show ?case by (simp add: takeUntil_def)
next
  case (Cons pg rest)
  have "[Suc i..<Suc i + length (pg # rest)] = Suc i # [Suc (Suc i)..<Suc (Suc i) + length rest]"
    using upt_conv_Cons[of "Suc i" "Suc i + length (pg # rest)"] by simp
  then show ?case using Cons.IH[of "Suc i"]
    by (simp add: takeUntil_Cons del: upt_Suc)
qed

lemma visitedFrom_visitedPages: "visitedFrom env a 0 pages = visitedPages env a pages"
  by (simp add: visitedFrom_zip visitedPages_def numbered_def)

lemma idx_beginPage [simp]: "idx (beginPage a n pg st) = Suc (idx st)"
  by (simp add: beginPage_def)

lemma idx_pageFailed [simp]: "idx (pageFailed pg st) = idx st"
  by (simp add: pageFailed_def)

lemma idx_pageRendered [simp]: "idx (pageRendered env pf pp pd st) = idx st"
  by (simp add: pageRendered_def Let_def)

lemma failed_beginPage [simp]: "failed (beginPage a n pg st) = failed st"
  by (simp add: beginPage_def)

lemma failed_pageFailed [simp]: "failed (pageFailed pg st) = failed st @ failureEntry pg"
  by (simp add: pageFailed_def failureEntry_def)

lemma failed_pageRendered [simp]: "failed (pageRendered env pf pp pd st) = failed st"
  by (simp add: pageRendered_def Let_def)

lemma pagesLoop_view:
  fixes g :: "event list \<Rightarrow> 'b list"
  assumes F: "\<And>st pg. g (trace (pageFailed pg (beginPage a n pg st))) = g (trace st) @ Fv (Suc (idx st), pg)"
    and R: "\<And>st pg. g (trace (pageRendered env pf pp (setPage env (Suc (idx st)) pg a) (beginPage a n pg st)))
                 = g (trace st) @ Rv (Suc (idx st), pg)"
  shows "g (trace (pagesLoop env a pf pp n pages st)) =
           g (trace st) @ concat (map (\<lambda>ip. if rendered env a ip then Rv ip else Fv ip)
                                    (visitedFrom env a (idx st) pages))"
proof (induction pages arbitrary: st)
  case Nil
  then show ?case by simp
next
  case (Cons pg rest)
  show ?case
  proof (cases "success (setPage env (Suc (idx st)) pg a)")
    case False
    then show ?thesis
      using Cons.IH[of "pageFailed pg (beginPage a n pg st)"] F[of pg st]
      by (simp add: rendered_def stopsAfter_def)
  next
    case True
    then show ?thesis
      using Cons.IH[of "pageRendered env pf pp (setPage env (Suc (idx st)) pg a) (beginPage a n pg st)"]
        R[of st pg]
      by (simp add: rendered_def stopsAfter_def)
  qed
qed

lemma pagesLoop_failed:
  "failed (pagesLoop env a pf pp n pages st) =
     failed st @ concat (map failureEntry
        (map snd (filter (\<lambda>ip. \<not> rendered env a ip) (visitedFrom env a (idx st) pages))))"
proof (induction pages arbitrary: st)
  case Nil
  then show ?case by simp
next
  case (Cons pg rest)
  show ?case
  proof (cases "success (setPage env (Suc (idx st)) pg a)")
    case False
    then show ?thesis
      using Cons.IH[of "pageFailed pg (beginPage a n pg st)"]
      by (simp add: rendered_def stopsAfter_def)
  next
    case True
    then show ?thesis
      using Cons.IH[of "pageRendered env pf pp (setPage env (Suc (idx st)) pg a) (beginPage a n pg st)"]
      by (simp add: rendered_def stopsAfter_def)
  qed
qed

lemma sessionCalls_Nil [simp]: "sessionCalls [] = []"
  by (simp add: sessionCalls_def)

lemma sessionCalls_Cons [simp]:
  "sessionCalls (e # es) = (case sessionCall e of None \<Rightarrow> sessionCalls es | Some c \<Rightarrow> c # sessionCalls es)"
  by (simp add: sessionCalls_def split: option.splits)

lemma sessionCalls_append [simp]: "sessionCalls (xs @ ys) = sessionCalls xs @ sessionCalls ys"
  by (induction xs) (simp_all split: option.splits)

lemma invocations_Nil [simp]: "invocations [] = []"
  by (simp add: invocations_def)

lemma invocations_Cons [simp]:
  "invocations (e # es) = (case invocation e of None \<Rightarrow> invocations es | Some c \<Rightarrow> c # invocations es)"
  by (simp add: invocations_def split: option.splits)

lemma invocations_append [simp]: "invocations (xs @ ys) = invocations xs @ invocations ys"
  by (induction xs) (simp_all split: option.splits)

lemma areas_pageWork:
  "filter isPageWork (snd (ocrAreasLoop env pf pp i res j areas fc nf rsd tr)) =
     filter isPageWork tr @ concat (map (\<lambda>img. [TessSetImage img, TessRecognize]) areas)"
  by (induction areas arbitrary: j fc nf rsd tr) (simp_all add: Let_def)

lemma areas_sessionCalls:
  "sessionCalls (snd (ocrAreasLoop env pf pp i res j areas fc nf rsd tr)) =
     sessionCalls tr @ map (\<lambda>k. CallRead)
        (filter (\<lambda>k. \<not> cancelledAfterRecognize env i k) [j..<j + length areas])"
proof (induction areas arbitrary: j fc nf rsd tr)
  case Nil
  then show ?case by simp
next
  case (Cons img rest)
  have "[j..<j + length (img # rest)] = j # [Suc j..<Suc j + length rest]"
    using upt_conv_Cons[of j "j + length (img # rest)"] by simp
  then show ?case using Cons.IH
    by (simp add: Let_def del: upt_Suc)
qed

lemma areas_failureHandling:
  "filter isFailureHandling (snd (ocrAreasLoop env pf pp i res j areas fc nf rsd tr)) =
     filter isFailureHandling tr"
  by (induction areas arbitrary: j fc nf rsd tr) (simp_all add: Let_def)

lemma areas_invocations:
  "invocations (snd (ocrAreasLoop env pf pp i res j areas fc nf rsd tr)) = invocations tr"
  by (induction areas arbitrary: j fc nf rsd tr) (simp_all add: Let_def)

lemma pagesLoop_pageWork:
  "filter isPageWork (trace (pagesLoop env a pf pp n pages st)) =
     filter isPageWork (trace st) @ concat (map (pageWork env a) (visitedFrom env a (idx st) pages))"
proof -
  have "filter isPageWork (trace (pagesLoop env a pf pp n pages st)) =
     filter isPageWork (trace st) @
     concat (map (\<lambda>ip. if rendered env a ip
                        then InvokeSetPage BlockingQueuedConnection (snd ip) a #
                             concat (map (\<lambda>img. [TessSetImage img, TessRecognize])
                                       (ocrAreas (setPage env (fst ip) (snd ip) a)))
                        else [InvokeSetPage BlockingQueuedConnection (snd ip) a])
               (visitedFrom env a (idx st) pages))"
    by (rule pagesLoop_view[where g = "filter isPageWork"
          and Fv = "\<lambda>ip. [InvokeSetPage BlockingQueuedConnection (snd ip) a]"
          and Rv = "\<lambda>ip. InvokeSetPage BlockingQueuedConnection (snd ip) a #
                             concat (map (\<lambda>img. [TessSetImage img, TessRecognize])
                                       (ocrAreas (setPage env (fst ip) (snd ip) a)))"])
       (simp_all add: pageFailed_def beginPage_def pageRendered_def Let_def areas_pageWork)
  also have "(\<lambda>ip. if rendered env a ip
                        then InvokeSetPage BlockingQueuedConnection (snd ip) a #
                             concat (map (\<lambda>img. [TessSetImage img, TessRecognize])
                                       (ocrAreas (setPage env (fst ip) (snd ip) a)))
                        else [InvokeSetPage BlockingQueuedConnection (snd ip) a]) = pageWork env a"
    by (rule ext) (simp add: pageWork_def)
  finally show ?thesis .
qed

lemma pagesLoop_sessionCalls:
  "sessionCalls (trace (pagesLoop env a pf pp n pages st)) =
     sessionCalls (trace st) @ concat (map (pageSessionCalls env a) (visitedFrom env a (idx st) pages))"
proof -
  have "sessionCalls (trace (pagesLoop env a pf pp n pages st)) =
     sessionCalls (trace st) @
     concat (map (\<lambda>ip. if rendered env a ip
                        then CallSetPage (snd ip) # map (\<lambda>j. CallRead)
                               (filter (\<lambda>j. \<not> cancelledAfterRecognize env (fst ip) j)
                                  [0..<length (ocrAreas (setPage env (fst ip) (snd ip) a))])
                        else [CallSetPage (snd ip), CallReadError])
               (visitedFrom env a (idx st) pages))"
    by (rule pagesLoop_view[where g = sessionCalls
          and Fv = "\<lambda>ip. [CallSetPage (snd ip), CallReadError]"
          and Rv = "\<lambda>ip. CallSetPage (snd ip) # map (\<lambda>j. CallRead)
                               (filter (\<lambda>j. \<not> cancelledAfterRecognize env (fst ip) j)
                                  [0..<length (ocrAreas (setPage env (fst ip) (snd ip) a))])"])
       (simp_all add: pageFailed_def beginPage_def pageRendered_def Let_def areas_sessionCalls)
  also have "(\<lambda>ip. if rendered env a ip
                        then CallSetPage (snd ip) # map (\<lambda>j. CallRead)
                               (filter (\<lambda>j. \<not> cancelledAfterRecognize env (fst ip) j)
                                  [0..<length (ocrAreas (setPage env (fst ip) (snd ip) a))])
                        else [CallSetPage (snd ip), CallReadError]) = pageSessionCalls env a"
    by (rule ext) (simp add: pageSessionCalls_def)
  finally show ?thesis .
qed

lemma pagesLoop_failureHandling:
  "filter isFailureHandling (trace (pagesLoop env a pf pp n pages st)) =
     filter isFailureHandling (trace st)
     @ concat (map (pageFailureHandling env a) (visitedFrom env a (idx st) pages))"
proof -
  have "filter isFailureHandling (trace (pagesLoop env a pf pp n pages st)) =
     filter isFailureHandling (trace st) @
     concat (map (\<lambda>ip. if rendered env a ip
                        then [InvokeSetPage BlockingQueuedConnection (snd ip) a]
                        else [InvokeSetPage BlockingQueuedConnection (snd ip) a, ReadError readErrorMessage])
               (visitedFrom env a (idx st) pages))"
    by (rule pagesLoop_view[where g = "filter isFailureHandling"
          and Fv = "\<lambda>ip. [InvokeSetPage BlockingQueuedConnection (snd ip) a, ReadError readErrorMessage]"
          and Rv = "\<lambda>ip. [InvokeSetPage BlockingQueuedConnection (snd ip) a]"])
       (simp_all add: pageFailed_def beginPage_def pageRendered_def Let_def areas_failureHandling
          readErrorMessage_def)
  also have "(\<lambda>ip. if rendered env a ip
                        then [InvokeSetPage BlockingQueuedConnection (snd ip) a]
                        else [InvokeSetPage BlockingQueuedConnection (snd ip) a, ReadError readErrorMessage])
             = pageFailureHandling env a"
    by (rule ext) (simp add: pageFailureHandling_def)
  finally show ?thesis .
qed

lemma pagesLoop_invocations:
  "invocations (trace (pagesLoop env a pf pp n pages st)) =
     invocations (trace st) @ concat (map (pageInvocations env a) (visitedFrom env a (idx st) pages))"
proof -
  have "invocations (trace (pagesLoop env a pf pp n pages st)) =
     invocations (trace st) @
     concat (map (\<lambda>ip. if rendered env a ip
                        then [(''pushState'', QueuedConnection), (''setPage'', BlockingQueuedConnection),
                              (''popState'', QueuedConnection)]
                        else [(''pushState'', QueuedConnection), (''setPage'', BlockingQueuedConnection)])
               (visitedFrom env a (idx st) pages))"
    by (rule pagesLoop_view[where g = invocations
          and Fv = "\<lambda>ip. [(''pushState'', QueuedConnection), (''setPage'', BlockingQueuedConnection)]"
          and Rv = "\<lambda>ip. [(''pushState'', QueuedConnection), (''setPage'', BlockingQueuedConnection),
                              (''popState'', QueuedConnection)]"])
       (simp_all add: pageFailed_def beginPage_def pageRendered_def Let_def areas_invocations)
  also have "(\<lambda>ip. if rendered env a ip
                        then [(''pushState'', QueuedConnection), (''setPage'', BlockingQueuedConnection),
                              (''popState'', QueuedConnection)]
                        else [(''pushState'', QueuedConnection), (''setPage'', BlockingQueuedConnection)])
             = pageInvocations env a"
    by (rule ext) (simp add: pageInvocations_def)
  finally show ?thesis .
qed


lemma takeUntil_take: "takeUntil P xs = take (length (takeUntil P xs)) xs"
  by (cases "Suc (length (takeWhile (\<lambda>x. \<not> P x) xs)) \<le> length xs")
     (simp_all add: takeUntil_def min_def)

lemma takeUntil_stop_last:
  "k < length (takeUntil P xs) \<Longrightarrow> P (takeUntil P xs ! k) \<Longrightarrow> Suc k = length (takeUntil P xs)"
proof (induction xs arbitrary: k)
  case Nil
  then show ?case by (simp add: takeUntil_def)
next
  case (Cons x xs)
  show ?case
  proof (cases "P x")
    case True
    with Cons.prems show ?thesis by (simp add: takeUntil_Cons)
  next
    case False
    show ?thesis
    proof (cases k)
      case 0
      with False Cons.prems show ?thesis by (simp add: takeUntil_Cons)
    next
      case (Suc k')
      with False Cons.prems Cons.IH[of k'] show ?thesis by (simp add: takeUntil_Cons)
    qed
  qed
qed

lemma takeUntil_short:
  "length (takeUntil P xs) < length xs \<Longrightarrow> P (last (takeUntil P xs))"
proof (induction xs)
  case Nil
  then show ?case by simp
next
  case (Cons x xs)
  show ?case
  proof (cases "P x")
    case True
    then show ?thesis by (simp add: takeUntil_Cons)
  next
    case False
    with Cons.prems have short: "length (takeUntil P xs) < length xs" by (simp add: takeUntil_Cons)
    then have "xs \<noteq> []" by auto
    then have "takeUntil P xs \<noteq> []" by (cases xs) (simp_all add: takeUntil_Cons)
    with False Cons.IH[OF short] show ?thesis by (simp add: takeUntil_Cons)
  qed
qed

lemma takeUntil_continues:
  "k < length (takeUntil P xs) \<Longrightarrow> \<not> P (takeUntil P xs ! k) \<Longrightarrow> Suc k < length xs
     \<Longrightarrow> Suc k < length (takeUntil P xs)"
proof (induction xs arbitrary: k)
  case Nil
  then show ?case by simp
next
  case (Cons x xs)
  show ?case
  proof (cases "P x")
    case True
    with Cons.prems show ?thesis by (simp add: takeUntil_Cons)
  next
    case False
    show ?thesis
    proof (cases k)
      case 0
      with Cons.prems have "xs \<noteq> []" by auto
      then have "takeUntil P xs \<noteq> []" by (cases xs) (simp_all add: takeUntil_Cons)
      with 0 False show ?thesis by (simp add: takeUntil_Cons)
    next
      case (Suc k')
      with False Cons.prems Cons.IH[of k'] show ?thesis by (simp add: takeUntil_Cons)
    qed
  qed
qed

lemma length_numbered [simp]: "length (numbered pages) = length pages"
  by (simp add: numbered_def del: upt_Suc)

lemma map_snd_numbered: "map snd (numbered pages) = pages"
  by (simp add: numbered_def map_snd_zip del: upt_Suc)

lemma visitedPages_prefix:
  "map snd (visitedPages env a pages) = take (length (visitedPages env a pages)) pages"
proof -
  have "map snd (visitedPages env a pages)
          = map snd (take (length (visitedPages env a pages)) (numbered pages))"
    using takeUntil_take[of "stopsAfter env a" "numbered pages"] by (simp add: visitedPages_def)
  then show ?thesis by (simp add: take_map[symmetric] map_snd_numbered)
qed

lemma failureEntry_nonempty: "failureEntry pg \<noteq> []"
  by (simp add: failureEntry_def newline_def)

lemma failureReport_empty: "failureReport env a pages = [] \<longleftrightarrow> failedPages env a pages = []"
  unfolding failureReport_def
  by (cases "failedPages env a pages") (simp_all add: failureEntry_nonempty)

lemma pagesLoop_failureReport:
  "failed (pagesLoop env a pf pp n pages \<lparr>idx = 0, prevFile = pv, failed = [], sessionData = sd, trace = tr\<rparr>)
     = failureReport env a pages"
  by (simp add: pagesLoop_failed visitedFrom_visitedPages failureReport_def failedPages_def)

subsection \<open>The claims about \<open>recognize\<close>\<close>

text \<open>
  C2 does not hold of the code: when \<open>TessBaseAPI::Init\<close> fails, \<open>recognizeImage\<close> shows
  the message box "Failed to initialize tesseract", but \<open>recognize\<close> has no \<open>else\<close> branch
  for \<open>ok == false\<close>: it returns after the call of \<open>Init\<close> and shows no message box.
\<close>

theorem recognize_init_failure:
  "\<not> tessInitOk env (curLangPrefix env) \<Longrightarrow>
   filter isMessageBox (recognize env pages a) = []
   \<and> recognize env pages a = [TessInit (curLangPrefix env)]
   \<and> filter isMessageBox (snd (recognizeImage env img dest)) =
       [MessageBoxCritical ''Recognition errors occurred'' ''Failed to initialize tesseract'']"
  by (simp add: recognize_def recognizeImage_def Let_def)

theorem recognize_init_failure_witness:
  "\<not> tessInitOk brokenEnv (curLangPrefix brokenEnv)
   \<and> recognize brokenEnv [1, 2] False = [TessInit ''xyz'']
   \<and> filter isMessageBox (recognize brokenEnv [1, 2] False) = []
   \<and> filter isMessageBox (snd (recognizeImage brokenEnv areaA Buffer)) =
       [MessageBoxCritical ''Recognition errors occurred'' ''Failed to initialize tesseract'']"
proof -
  have h: "\<not> tessInitOk brokenEnv (curLangPrefix brokenEnv)" by code_simp
  have l: "curLangPrefix brokenEnv = ''xyz''" by code_simp
  from recognize_init_failure [OF h, of "[1, 2]" False areaA Buffer] h l show ?thesis by simp
qed

text \<open>
  C3: in a session whose initialization succeeded, every visited page gets its call of
  \<open>setPage\<close>; when the page fails to render, \<open>readError\<close> is called on the output editor
  next, and the page gets an entry in the failure report; the loop goes on to the next
  page of the list (a page that failed is never the last one visited unless it is the
  last of the list); after the loop one message box shows the report, if some visited
  page failed, and none otherwise.
\<close>

theorem recognize_render_failures:
  "tessInitOk env (curLangPrefix env) \<Longrightarrow>
   filter isFailureHandling (recognize env pages a) =
     concat (map (pageFailureHandling env a) (visitedPages env a pages))
     @ (if failedPages env a pages \<noteq> []
        then [MessageBoxCritical ''Recognition errors occurred''
                (''The following errors occurred:'' @ failureReport env a pages)]
        else [])
   \<and> (\<forall>k. k < length (visitedPages env a pages)
            \<and> \<not> rendered env a (visitedPages env a pages ! k) \<and> Suc k < length pages
          \<longrightarrow> Suc k < length (visitedPages env a pages))"
proof (intro conjI allI impI)
  assume ok: "tessInitOk env (curLangPrefix env)"
  show "filter isFailureHandling (recognize env pages a) =
     concat (map (pageFailureHandling env a) (visitedPages env a pages))
     @ (if failedPages env a pages \<noteq> []
        then [MessageBoxCritical ''Recognition errors occurred''
                (''The following errors occurred:'' @ failureReport env a pages)]
        else [])"
    using ok
    by (simp add: recognize_def Let_def pagesLoop_failureHandling pagesLoop_failureReport
        visitedFrom_visitedPages failureReport_empty)
next
  fix k
  assume "k < length (visitedPages env a pages)
            \<and> \<not> rendered env a (visitedPages env a pages ! k) \<and> Suc k < length pages"
  then show "Suc k < length (visitedPages env a pages)"
    unfolding visitedPages_def
    using takeUntil_continues[of k "stopsAfter env a" "numbered pages"]
    by (simp add: stopsAfter_def)
qed

theorem recognize_render_failures_witness:
  "tessInitOk sampleEnv (curLangPrefix sampleEnv)
   \<and> filter isFailureHandling (recognize sampleEnv [1, 2, 3, 4] False) =
       [InvokeSetPage BlockingQueuedConnection 1 False,
        InvokeSetPage BlockingQueuedConnection 2 False,
        ReadError readErrorMessage,
        InvokeSetPage BlockingQueuedConnection 3 False,
        MessageBoxCritical ''Recognition errors occurred''
          (''The following errors occurred:'' @ newline @ ''- Page 2: failed to render page'')]
   \<and> failedPages sampleEnv False [1, 2, 3, 4] = [2]
   \<and> \<not> rendered sampleEnv False (visitedPages sampleEnv False [1, 2, 3, 4] ! 1)
   \<and> Suc (Suc 1) = length (visitedPages sampleEnv False [1, 2, 3, 4])"
proof -
  have h: "tessInitOk sampleEnv (curLangPrefix sampleEnv)" by code_simp
  have v: "visitedPages sampleEnv False [1, 2, 3, 4] = [(1, 1), (2, 2), (3, 3)]" by code_simp
  have f: "failedPages sampleEnv False [1, 2, 3, 4] = [2]" by code_simp
  have r: "failureReport sampleEnv False [1, 2, 3, 4] = newline @ ''- Page 2: failed to render page''"
    by code_simp
  have p: "concat (map (pageFailureHandling sampleEnv False) [(1, 1), (2, 2), (3, 3)]) =
       [InvokeSetPage BlockingQueuedConnection 1 False,
        InvokeSetPage BlockingQueuedConnection 2 False,
        ReadError readErrorMessage,
        InvokeSetPage BlockingQueuedConnection 3 False]"
    by code_simp
  have n: "\<not> rendered sampleEnv False (2, 2)" by code_simp
  from recognize_render_failures [OF h, of "[1, 2, 3, 4]" False] h v f r p n show ?thesis by simp
qed

text \<open>
  C4: the calls of \<open>setPage\<close>, \<open>SetImage\<close> and \<open>Recognize\<close> that \<open>recognize\<close> makes are, page
  after page in list order, one call of \<open>setPage\<close> and then, if the page rendered, one
  \<open>SetImage\<close> and one \<open>Recognize\<close> for each of its OCR areas. The pages visited are a
  prefix of the list; a page that rendered and at whose end the monitor is seen
  cancelled is the last one visited, and the loop leaves pages out only after such a
  page. (When the initialization fails, no page is visited.)
\<close>

theorem recognize_page_order:
  "filter isPageWork (recognize env pages a) =
     (if tessInitOk env (curLangPrefix env)
      then concat (map (pageWork env a) (visitedPages env a pages)) else [])
   \<and> map snd (visitedPages env a pages) = take (length (visitedPages env a pages)) pages
   \<and> (\<forall>k < length (visitedPages env a pages).
         stopsAfter env a (visitedPages env a pages ! k) \<longrightarrow> Suc k = length (visitedPages env a pages))
   \<and> (length (visitedPages env a pages) < length pages \<longrightarrow>
         stopsAfter env a (last (visitedPages env a pages)))"
proof (intro conjI allI impI)
  show "filter isPageWork (recognize env pages a) =
     (if tessInitOk env (curLangPrefix env)
      then concat (map (pageWork env a) (visitedPages env a pages)) else [])"
    by (simp add: recognize_def Let_def pagesLoop_pageWork visitedFrom_visitedPages)
  show "map snd (visitedPages env a pages) = take (length (visitedPages env a pages)) pages"
    by (rule visitedPages_prefix)
next
  fix k
  assume "k < length (visitedPages env a pages)" "stopsAfter env a (visitedPages env a pages ! k)"
  then show "Suc k = length (visitedPages env a pages)"
    unfolding visitedPages_def by (rule takeUntil_stop_last)
next
  assume "length (visitedPages env a pages) < length pages"
  then show "stopsAfter env a (last (visitedPages env a pages))"
    unfolding visitedPages_def using takeUntil_short[of "stopsAfter env a" "numbered pages"] by simp
qed

theorem recognize_page_order_witness:
  "filter isPageWork (recognize sampleEnv [1, 2, 3, 4] False) =
     [InvokeSetPage BlockingQueuedConnection 1 False,
      TessSetImage areaA, TessRecognize, TessSetImage areaB, TessRecognize,
      InvokeSetPage BlockingQueuedConnection 2 False,
      InvokeSetPage BlockingQueuedConnection 3 False,
      TessSetImage areaA, TessRecognize, TessSetImage areaB, TessRecognize]
   \<and> map snd (visitedPages sampleEnv False [1, 2, 3, 4]) = take 3 [1, 2, 3, 4]
   \<and> stopsAfter sampleEnv False (visitedPages sampleEnv False [1, 2, 3, 4] ! 2)
   \<and> Suc 2 = length (visitedPages sampleEnv False [1, 2, 3, 4])
   \<and> length (visitedPages sampleEnv False [1, 2, 3, 4]) < length [1, 2, 3, 4 :: int]
   \<and> stopsAfter sampleEnv False (last (visitedPages sampleEnv False [1, 2, 3, 4]))"
proof -
  have h: "tessInitOk sampleEnv (curLangPrefix sampleEnv)" by code_simp
  have v: "visitedPages sampleEnv False [1, 2, 3, 4] = [(1, 1), (2, 2), (3, 3)]" by code_simp
  have p: "concat (map (pageWork sampleEnv False) [(1, 1), (2, 2), (3, 3)]) =
     [InvokeSetPage BlockingQueuedConnection 1 False,
      TessSetImage areaA, TessRecognize, TessSetImage areaB, TessRecognize,
      InvokeSetPage BlockingQueuedConnection 2 False,
      InvokeSetPage BlockingQueuedConnection 3 False,
      TessSetImage areaA, TessRecognize, TessSetImage areaB, TessRecognize]"
    by code_simp
  have s: "stopsAfter sampleEnv False (3, 3)" by code_simp
  from recognize_page_order [of sampleEnv "[1, 2, 3, 4]" False] h v p s show ?thesis by simp
qed

text \<open>
  C5: in a session whose initialization succeeded, the calls into the output editor
  and the calls of \<open>setPage\<close> are: \<open>initRead\<close> once, before the first page; then for each
  visited page its \<open>setPage\<close>, followed by \<open>readError\<close> if it failed to render, and
  otherwise by one \<open>read\<close> for every OCR area after whose \<open>Recognize\<close> the monitor is not
  seen cancelled; and \<open>finalizeRead\<close> once, after the last page, whatever failed or was
  cancelled.
\<close>

theorem recognize_session_calls:
  "tessInitOk env (curLangPrefix env) \<Longrightarrow>
   sessionCalls (recognize env pages a) =
     CallInitRead # concat (map (pageSessionCalls env a) (visitedPages env a pages)) @ [CallFinalizeRead]"
  by (simp add: recognize_def Let_def pagesLoop_sessionCalls visitedFrom_visitedPages)

theorem recognize_session_calls_witness:
  "tessInitOk sampleEnv (curLangPrefix sampleEnv)
   \<and> sessionCalls (recognize sampleEnv [1, 2, 3, 4] False) =
       [CallInitRead,
        CallSetPage 1, CallRead, CallRead,
        CallSetPage 2, CallReadError,
        CallSetPage 3, CallRead,
        CallFinalizeRead]"
proof -
  have h: "tessInitOk sampleEnv (curLangPrefix sampleEnv)" by code_simp
  have v: "visitedPages sampleEnv False [1, 2, 3, 4] = [(1, 1), (2, 2), (3, 3)]" by code_simp
  have p: "concat (map (pageSessionCalls sampleEnv False) [(1, 1), (2, 2), (3, 3)]) =
       [CallSetPage 1, CallRead, CallRead, CallSetPage 2, CallReadError, CallSetPage 3, CallRead]"
    by code_simp
  from recognize_session_calls [OF h, of "[1, 2, 3, 4]" False] h v p show ?thesis by simp
qed

text \<open>
  C6, as stated, asks for a blocking queued invocation of \<open>pushState\<close>, \<open>setPage\<close> and
  \<open>popState\<close>. On a single page that renders, the worker invokes \<open>pushState\<close> and
  \<open>popState\<close> with \<open>Qt::QueuedConnection\<close>, which does not block.
\<close>

theorem recognize_connection_counterexample:
  "invocations (recognize sampleEnv [1] False) =
     [(''pushState'', QueuedConnection), (''setPage'', BlockingQueuedConnection),
      (''popState'', QueuedConnection)]
   \<and> \<not> list_all (\<lambda>mc. snd mc = BlockingQueuedConnection) (invocations (recognize sampleEnv [1] False))"
  by code_simp

text \<open>
  C6, amended: of the invocations the worker makes across threads, \<open>setPage\<close> is a
  blocking queued invocation; \<open>pushState\<close> and \<open>popState\<close> are queued invocations that do
  not block. Per visited page they are \<open>pushState\<close>, \<open>setPage\<close> and, if the page rendered,
  \<open>popState\<close>.
\<close>

theorem recognize_connection_types:
  "invocations (recognize env pages a) =
     (if tessInitOk env (curLangPrefix env)
      then concat (map (pageInvocations env a) (visitedPages env a pages)) else [])
   \<and> (\<forall>mc \<in> set (invocations (recognize env pages a)).
         (fst mc = ''setPage'' \<and> snd mc = BlockingQueuedConnection)
         \<or> ((fst mc = ''pushState'' \<or> fst mc = ''popState'') \<and> snd mc = QueuedConnection))"
proof -
  have eq: "invocations (recognize env pages a) =
     (if tessInitOk env (curLangPrefix env)
      then concat (map (pageInvocations env a) (visitedPages env a pages)) else [])"
    by (simp add: recognize_def Let_def pagesLoop_invocations visitedFrom_visitedPages)
  have "\<forall>mc \<in> set (invocations (recognize env pages a)).
         (fst mc = ''setPage'' \<and> snd mc = BlockingQueuedConnection)
         \<or> ((fst mc = ''pushState'' \<or> fst mc = ''popState'') \<and> snd mc = QueuedConnection)"
    unfolding eq by (auto simp: pageInvocations_def split: if_splits)
  with eq show ?thesis by blast
qed

theorem recognize_connection_types_witness:
  "invocations (recognize sampleEnv [1, 2] False) =
     [(''pushState'', QueuedConnection), (''setPage'', BlockingQueuedConnection),
      (''popState'', QueuedConnection),
      (''pushState'', QueuedConnection), (''setPage'', BlockingQueuedConnection)]
   \<and> list_all (\<lambda>mc. (fst mc = ''setPage'' \<and> snd mc = BlockingQueuedConnection)
         \<or> ((fst mc = ''pushState'' \<or> fst mc = ''popState'') \<and> snd mc = QueuedConnection))
        (invocations (recognize sampleEnv [1, 2] False))"
proof -
  have h: "tessInitOk sampleEnv (curLangPrefix sampleEnv)" by code_simp
  have v: "visitedPages sampleEnv False [1, 2] = [(1, 1), (2, 2)]" by code_simp
  have p: "concat (map (pageInvocations sampleEnv False) [(1, 1), (2, 2)]) =
     [(''pushState'', QueuedConnection), (''setPage'', BlockingQueuedConnection),
      (''popState'', QueuedConnection),
      (''pushState'', QueuedConnection), (''setPage'', BlockingQueuedConnection)]"
    by code_simp
  from recognize_connection_types [of sampleEnv "[1, 2]" False] h v p
  have e: "invocations (recognize sampleEnv [1, 2] False) =
     [(''pushState'', QueuedConnection), (''setPage'', BlockingQueuedConnection),
      (''popState'', QueuedConnection),
      (''pushState'', QueuedConnection), (''setPage'', BlockingQueuedConnection)]"
    by simp
  from recognize_connection_types [of sampleEnv "[1, 2]" False]
  have b: "\<forall>mc \<in> set (invocations (recognize sampleEnv [1, 2] False)).
         (fst mc = ''setPage'' \<and> snd mc = BlockingQueuedConnection)
         \<or> ((fst mc = ''pushState'' \<or> fst mc = ''popState'') \<and> snd mc = QueuedConnection)"
    by (rule conjunct2)
  then have "list_all (\<lambda>mc. (fst mc = ''setPage'' \<and> snd mc = BlockingQueuedConnection)
         \<or> ((fst mc = ''pushState'' \<or> fst mc = ''popState'') \<and> snd mc = QueuedConnection))
        (invocations (recognize sampleEnv [1, 2] False))"
    by (simp only: list_all_iff)
  with e show ?thesis by (rule conjI)
qed

section \<open>Properties of \<open>setMultiLanguage\<close>\<close>

lemma collectLangs_eq:
  "collectLangs actions langs = langs @ concat (map (\<lambda>d. d @ ''+'') (checkedData actions))"
  by (induction actions arbitrary: langs) (simp_all add: checkedData_def)

lemma butlast_plus_join:
  "ds \<noteq> [] \<Longrightarrow> butlast (concat (map (\<lambda>d. d @ ''+'') ds)) = join ''+'' ds"
proof (induction ds)
  case Nil
  then show ?case by simp
next
  case (Cons d ds)
  show ?case
  proof (cases ds)
    case Nil
    then show ?thesis by (simp add: butlast_append)
  next
    case (Cons e es)
    with Cons.IH show ?thesis by (simp add: butlast_append)
  qed
qed

lemma left_butlast: "s \<noteq> [] \<Longrightarrow> left (int (length s) - 1) s = butlast s"
  by (simp add: left_def butlast_conv_take nat_diff_distrib')

lemma join_tail:
  "ds \<noteq> [] \<Longrightarrow>
   (join ''+'' ds \<noteq> [] \<and> last (join ''+'' ds) \<noteq> CHR ''+'')
     = (last ds \<noteq> [] \<and> last (last ds) \<noteq> CHR ''+'')"
proof (induction ds)
  case Nil
  then show ?case by simp
next
  case (Cons d ds)
  show ?case
  proof (cases ds)
    case Nil
    then show ?thesis by simp
  next
    case (Cons e es)
    with Cons.IH show ?thesis by (cases "join ''+'' (e # es) = []") simp_all
  qed
qed

lemma setMultiLanguage_prefix:
  "lang_prefix (m_curLang (setMultiLanguage actions st)) =
     (if checkedData actions = [] then ''eng'' else join ''+'' (checkedData actions))"
proof (cases "checkedData actions = []")
  case True
  then show ?thesis
    by (simp add: setMultiLanguage_def collectLangs_eq Let_def left_def)
next
  case False
  then have ne: "concat (map (\<lambda>d. d @ ''+'') (checkedData actions)) \<noteq> []"
    by (cases "checkedData actions") simp_all
  with False show ?thesis
    by (simp add: setMultiLanguage_def collectLangs_eq Let_def left_butlast butlast_plus_join)
qed

text \<open>
  C9, as stated, has the prefix non-empty and not ending in a plus sign in every case.
  The data of an action is a name tesseract reports for a file of its data directory,
  and \<open>setMultiLanguage\<close> does not look at it: with the single checked name \<open>a+\<close> the
  prefix is \<open>a+\<close>, and with a single checked empty name it is empty.
\<close>

theorem setMultiLanguage_prefix_counterexample:
  "lang_prefix (m_curLang (setMultiLanguage [\<lparr>isChecked = True, actionData = ''a+''\<rparr>] sampleState)) = ''a+''
   \<and> lang_prefix (m_curLang (setMultiLanguage [\<lparr>isChecked = True, actionData = []\<rparr>] sampleState)) = []"
  by code_simp

text \<open>
  C9, amended: \<open>setMultiLanguage\<close> sets the current language prefix to the join with
  \<open>+\<close>, in menu order, of the data of the checked actions, and to \<open>eng\<close> when no action is
  checked; the setting "language" is that prefix followed by a colon; the prefix is
  non-empty and does not end in \<open>+\<close> exactly when no action is checked or the data of the
  last checked action is non-empty and does not end in \<open>+\<close>.
\<close>

theorem setMultiLanguage_result:
  "lang_prefix (m_curLang (setMultiLanguage actions st)) =
     (if checkedData actions = [] then ''eng'' else join ''+'' (checkedData actions))
   \<and> languageSetting (setMultiLanguage actions st) =
       lang_prefix (m_curLang (setMultiLanguage actions st)) @ '':''
   \<and> ((lang_prefix (m_curLang (setMultiLanguage actions st)) \<noteq> []
        \<and> last (lang_prefix (m_curLang (setMultiLanguage actions st))) \<noteq> CHR ''+'')
       = (checkedData actions = []
          \<or> (last (checkedData actions) \<noteq> [] \<and> last (last (checkedData actions)) \<noteq> CHR ''+'')))"
proof (intro conjI)
  show "lang_prefix (m_curLang (setMultiLanguage actions st)) =
     (if checkedData actions = [] then ''eng'' else join ''+'' (checkedData actions))"
    by (rule setMultiLanguage_prefix)
  show "languageSetting (setMultiLanguage actions st) =
       lang_prefix (m_curLang (setMultiLanguage actions st)) @ '':''"
    by (simp add: setMultiLanguage_def Let_def)
  show "(lang_prefix (m_curLang (setMultiLanguage actions st)) \<noteq> []
        \<and> last (lang_prefix (m_curLang (setMultiLanguage actions st))) \<noteq> CHR ''+'')
       = (checkedData actions = []
          \<or> (last (checkedData actions) \<noteq> [] \<and> last (last (checkedData actions)) \<noteq> CHR ''+''))"
    using join_tail[of "checkedData actions"] by (simp add: setMultiLanguage_prefix)
qed

theorem setMultiLanguage_result_witness:
  "checkedData [\<lparr>isChecked = True, actionData = ''deu''\<rparr>, \<lparr>isChecked = False, actionData = ''fra''\<rparr>,
                \<lparr>isChecked = True, actionData = ''eng''\<rparr>] = [''deu'', ''eng'']
   \<and> lang_prefix (m_curLang (setMultiLanguage
        [\<lparr>isChecked = True, actionData = ''deu''\<rparr>, \<lparr>isChecked = False, actionData = ''fra''\<rparr>,
         \<lparr>isChecked = True, actionData = ''eng''\<rparr>] sampleState)) = ''deu+eng''
   \<and> languageSetting (setMultiLanguage
        [\<lparr>isChecked = True, actionData = ''deu''\<rparr>, \<lparr>isChecked = False, actionData = ''fra''\<rparr>,
         \<lparr>isChecked = True, actionData = ''eng''\<rparr>] sampleState) = ''deu+eng:''
   \<and> lang_prefix (m_curLang (setMultiLanguage [\<lparr>isChecked = False, actionData = ''fra''\<rparr>] sampleState)) = ''eng''"
proof -
  have c: "checkedData [\<lparr>isChecked = True, actionData = ''deu''\<rparr>, \<lparr>isChecked = False, actionData = ''fra''\<rparr>,
                \<lparr>isChecked = True, actionData = ''eng''\<rparr>] = [''deu'', ''eng'']"
    by code_simp
  have d: "checkedData [\<lparr>isChecked = False, actionData = ''fra''\<rparr>] = []" by code_simp
  from setMultiLanguage_result
      [of "[\<lparr>isChecked = True, actionData = ''deu''\<rparr>, \<lparr>isChecked = False, actionData = ''fra''\<rparr>,
            \<lparr>isChecked = True, actionData = ''eng''\<rparr>]" sampleState]
    setMultiLanguage_result [of "[\<lparr>isChecked = False, actionData = ''fra''\<rparr>]" sampleState] c d
  show ?thesis by simp
qed

section \<open>Properties of the version check\<close>

lemma QString_compare_lex: "(0 < QString_compare a b) = lexLess b a"
proof (induction a b rule: QString_compare.induct)
  case 1
  then show ?case by (simp add: lexLess_def)
next
  case (2 b bs)
  then show ?case by (simp add: lexLess_def)
next
  case (3 a as)
  then show ?case by (simp add: lexLess_def)
next
  case (4 a as b bs)
  have ne: "a \<noteq> b \<Longrightarrow> (of_char a :: nat) \<noteq> of_char b" by simp
  have "a \<noteq> b \<Longrightarrow> (of_char b :: nat) < of_char a \<or> (of_char a :: nat) < of_char b"
    using ne by linarith
  with 4 show ?case by (auto simp: lexLess_def)
qed

lemma versionPat_nonempty: "versionPat_exactMatch s \<Longrightarrow> s \<noteq> []"
  by (auto simp: versionPat_exactMatch_def list_ex_iff)

text \<open>
  C10: the thread starts once, with \<open>m_newestVersion\<close> empty. \<open>checkVersion\<close> then adds
  the notification exactly when the downloaded text, with its whitespace removed,
  matches \<open>^[\d+\.]+\d+$\<close> and compares greater than the package version under
  \<open>QString::compare\<close>, which is the lexicographic order by code unit.
\<close>

theorem checkVersion_notifies:
  "(checkVersion PACKAGE_VERSION (VersionCheckThread_run downloaded []) \<noteq> [])
     = (versionPat_exactMatch (removeSpaces downloaded)
        \<and> 0 < QString_compare (removeSpaces downloaded) PACKAGE_VERSION)
   \<and> (0 < QString_compare (removeSpaces downloaded) PACKAGE_VERSION)
       = lexLess PACKAGE_VERSION (removeSpaces downloaded)"
  using versionPat_nonempty[of "removeSpaces downloaded"]
  by (auto simp: checkVersion_def VersionCheckThread_run_def Let_def QString_compare_lex)

theorem checkVersion_notifies_witness:
  "versionPat_exactMatch (removeSpaces ('' 3.3.1'' @ newline))
   \<and> 0 < QString_compare (removeSpaces ('' 3.3.1'' @ newline)) ''3.3.0''
   \<and> checkVersion ''3.3.0'' (VersionCheckThread_run ('' 3.3.1'' @ newline) []) \<noteq> []
   \<and> lexLess ''3.3.0'' (removeSpaces ('' 3.3.1'' @ newline))
   \<and> \<not> 0 < QString_compare (removeSpaces ''3.10.0'') ''3.9.0''
   \<and> checkVersion ''3.9.0'' (VersionCheckThread_run ''3.10.0'' []) = []"
proof -
  have m: "versionPat_exactMatch (removeSpaces ('' 3.3.1'' @ newline))" by code_simp
  have g: "0 < QString_compare (removeSpaces ('' 3.3.1'' @ newline)) ''3.3.0''" by code_simp
  have n: "\<not> 0 < QString_compare (removeSpaces ''3.10.0'') ''3.9.0''" by code_simp
  from checkVersion_notifies [of "''3.3.0''" "'' 3.3.1'' @ newline"]
    checkVersion_notifies [of "''3.9.0''" "''3.10.0''"] m g n
  show ?thesis by simp
qed

section \<open>Properties of \<open>dictionaryAutoinstall\<close>\<close>

lemma forEachMatch_foldl:
  "forEachMatch pat body str pos st = foldl (\<lambda>s cap. body cap s) st (matchesFrom pat str pos)"
proof (induction pat body str pos st rule: forEachMatch.induct)
  case (1 pat body str pos st)
  show ?case
  proof (cases "indexIn pat str pos")
    case None
    then show ?thesis by (subst forEachMatch.simps, subst matchesFrom.simps) simp
  next
    case (Some m)
    obtain p cap len where m: "m = (p, cap, len)" by (cases m)
    from 1[OF Some[unfolded m] refl refl] Some m show ?thesis
      by (subst forEachMatch.simps, subst matchesFrom.simps) simp
  qed
qed

lemma foldl_collect:
  assumes "\<And>x s. field (step x s) = field s @ g x"
  shows "field (foldl (\<lambda>s x. step x s) s xs) = field s @ concat (map g xs)"
  using assms by (induction xs arbitrary: s) simp_all

lemma foldl_keep:
  assumes "\<And>x s. field (step x s) = field s"
  shows "field (foldl (\<lambda>s x. step x s) s xs) = field s"
  using assms by (induction xs arbitrary: s) simp_all

lemma installDict_failed:
  "failedFiles (installDict env lang f st) =
     failedFiles st @ (if failsToInstall env (lang, f) then [f] else [])"
  by (simp add: installDict_def failsToInstall_def Let_def split: option.splits)

lemma installDict_downloaded:
  "downloadedFiles (installDict env lang f st) =
     downloadedFiles st @ (if failsToInstall env (lang, f) then [] else [f])"
  by (simp add: installDict_def failsToInstall_def Let_def split: option.splits)

lemma installDict_messages:
  "filter isMessage (events (installDict env lang f st)) = filter isMessage (events st)"
  by (simp add: installDict_def Let_def split: option.splits)

lemma matchesFrom_Nil: "matchesFrom pat [] pos = []"
  by (subst matchesFrom.simps) (simp add: indexIn_def)

lemma concat_if_filter:
  "concat (map (\<lambda>f. if P (lang, f) then [f] else []) fs) = map snd (filter P (map (Pair lang) fs))"
  by (induction fs) simp_all

lemma installLang_failed:
  "failedFiles (installLang env lc lang st) =
     failedFiles st @ map snd (filter (failsToInstall env)
        (map (Pair lang) (matchesFrom (DictPat lc) (toQString (downloadData env (url @ lang @ ''/''))) 0)))"
proof (cases "toQString (downloadData env (url @ lang @ ''/'')) = []")
  case True
  then show ?thesis by (simp add: installLang_def matchesFrom_Nil)
next
  case False
  have "failedFiles (foldl (\<lambda>s f. installDict env lang f s) st
          (matchesFrom (DictPat lc) (toQString (downloadData env (url @ lang @ ''/''))) 0))
        = failedFiles st @ concat (map (\<lambda>f. if failsToInstall env (lang, f) then [f] else [])
            (matchesFrom (DictPat lc) (toQString (downloadData env (url @ lang @ ''/''))) 0))"
    by (rule foldl_collect[where field = failedFiles and step = "installDict env lang"
          and g = "\<lambda>f. if failsToInstall env (lang, f) then [f] else []"])
       (rule installDict_failed)
  with False show ?thesis
    by (simp add: installLang_def Let_def forEachMatch_foldl concat_if_filter)
qed

lemma installLang_downloaded:
  "downloadedFiles (installLang env lc lang st) =
     downloadedFiles st @ map snd (filter (\<lambda>lf. \<not> failsToInstall env lf)
        (map (Pair lang) (matchesFrom (DictPat lc) (toQString (downloadData env (url @ lang @ ''/''))) 0)))"
proof (cases "toQString (downloadData env (url @ lang @ ''/'')) = []")
  case True
  then show ?thesis by (simp add: installLang_def matchesFrom_Nil)
next
  case False
  have "downloadedFiles (foldl (\<lambda>s f. installDict env lang f s) st
          (matchesFrom (DictPat lc) (toQString (downloadData env (url @ lang @ ''/''))) 0))
        = downloadedFiles st @ concat (map (\<lambda>f. if \<not> failsToInstall env (lang, f) then [f] else [])
            (matchesFrom (DictPat lc) (toQString (downloadData env (url @ lang @ ''/''))) 0))"
    by (rule foldl_collect[where field = downloadedFiles and step = "installDict env lang"
          and g = "\<lambda>f. if \<not> failsToInstall env (lang, f) then [f] else []"])
       (simp add: installDict_downloaded)
  with False show ?thesis
    by (simp add: installLang_def Let_def forEachMatch_foldl
        concat_if_filter[where P = "\<lambda>lf. \<not> failsToInstall env lf"])
qed

lemma installLang_messages:
  "filter isMessage (events (installLang env lc lang st)) = filter isMessage (events st)"
proof (cases "toQString (downloadData env (url @ lang @ ''/'')) = []")
  case True
  then show ?thesis by (simp add: installLang_def)
next
  case False
  have "filter isMessage (events (foldl (\<lambda>s f. installDict env lang f s) st
          (matchesFrom (DictPat lc) (toQString (downloadData env (url @ lang @ ''/''))) 0)))
        = filter isMessage (events st)"
    by (rule foldl_keep[where field = "\<lambda>s. filter isMessage (events s)" and step = "installDict env lang"])
       (rule installDict_messages)
  with False show ?thesis by (simp add: installLang_def Let_def forEachMatch_foldl)
qed

lemma langLoop_failed:
  "failedFiles (forEachMatch (LangPat lc) (installLang env lc) html 0 st) =
     failedFiles st @ map snd (filter (failsToInstall env)
       (concat (map (\<lambda>lang. map (Pair lang)
                       (matchesFrom (DictPat lc) (toQString (downloadData env (url @ lang @ ''/''))) 0))
                  (matchesFrom (LangPat lc) html 0))))"
proof -
  have "failedFiles (foldl (\<lambda>s lang. installLang env lc lang s) st (matchesFrom (LangPat lc) html 0))
        = failedFiles st @ concat (map (\<lambda>lang. map snd (filter (failsToInstall env)
            (map (Pair lang) (matchesFrom (DictPat lc) (toQString (downloadData env (url @ lang @ ''/''))) 0))))
            (matchesFrom (LangPat lc) html 0))"
    by (rule foldl_collect[where field = failedFiles and step = "installLang env lc"])
       (rule installLang_failed)
  then show ?thesis
    by (simp add: forEachMatch_foldl filter_concat map_concat comp_def)
qed

lemma langLoop_downloaded:
  "downloadedFiles (forEachMatch (LangPat lc) (installLang env lc) html 0 st) =
     downloadedFiles st @ map snd (filter (\<lambda>lf. \<not> failsToInstall env lf)
       (concat (map (\<lambda>lang. map (Pair lang)
                       (matchesFrom (DictPat lc) (toQString (downloadData env (url @ lang @ ''/''))) 0))
                  (matchesFrom (LangPat lc) html 0))))"
proof -
  have "downloadedFiles (foldl (\<lambda>s lang. installLang env lc lang s) st (matchesFrom (LangPat lc) html 0))
        = downloadedFiles st @ concat (map (\<lambda>lang. map snd (filter (\<lambda>lf. \<not> failsToInstall env lf)
            (map (Pair lang) (matchesFrom (DictPat lc) (toQString (downloadData env (url @ lang @ ''/''))) 0))))
            (matchesFrom (LangPat lc) html 0))"
    by (rule foldl_collect[where field = downloadedFiles and step = "installLang env lc"])
       (rule installLang_downloaded)
  then show ?thesis
    by (simp add: forEachMatch_foldl filter_concat map_concat comp_def)
qed

lemma langLoop_messages:
  "filter isMessage (events (forEachMatch (LangPat lc) (installLang env lc) html 0 st))
     = filter isMessage (events st)"
proof -
  have "filter isMessage (events (foldl (\<lambda>s lang. installLang env lc lang s) st
          (matchesFrom (LangPat lc) html 0))) = filter isMessage (events st)"
    by (rule foldl_keep[where field = "\<lambda>s. filter isMessage (events s)" and step = "installLang env lc"])
       (rule installLang_messages)
  then show ?thesis by (simp add: forEachMatch_foldl)
qed

lemma helpOffer_messages: "filter isMessage (helpOffer env) = []"
  by (simp add: helpOffer_def)

lemma dictionaryAutoinstall_download:
  assumes "takesDownloadPath env" and "mkpathOk env" and "toQString (downloadData env url) \<noteq> []"
  shows "dictionaryAutoinstall env =
     (let st = forEachMatch (LangPat (langCodeOf env)) (installLang env (langCodeOf env))
                 (toQString (downloadData env url)) 0
                 \<lparr>downloadedFiles = [], failedFiles = [],
                  events = [PushState (''Installing spelling dictionary for ''
                                        @ quoted (selectedLanguageCode env))]\<rparr>;
          tr1 = events st @ [PopState]
      in if failedFiles st \<noteq> [] then
           tr1 @ [Critical ''Error'' (failedMessage (failedFiles st))]
         else if downloadedFiles st \<noteq> [] then
           tr1 @ [UpdateLanguagesMenu,
                  Information ''Dictionaries installed'' (installedMessage (downloadedFiles st))]
         else
           tr1 @ CriticalOkHelp ''Error'' (notFoundMessage (selectedLanguageCode env)) # helpOffer env)"
proof (cases "isWindows env")
  case True
  with assms(2,3) show ?thesis
    by (simp add: dictionaryAutoinstall_def Let_def langCodeOf_def)
next
  case False
  with assms(1) have "\<not> useSystemDataLocations env"
    by (simp add: takesDownloadPath_def)
  with assms(2,3) show ?thesis
    by (simp add: dictionaryAutoinstall_def Let_def langCodeOf_def)
qed

text \<open>
  The download path returns early, with a message box of its own, when the spelling
  directory cannot be made or the index page cannot be read.
\<close>

lemma dictionaryAutoinstall_early_return:
  assumes "takesDownloadPath env"
    and "\<not> mkpathOk env \<or> toQString (downloadData env url) = []"
  shows "filter isMessage (dictionaryAutoinstall env) =
     [CriticalOkHelp ''Error''
        (if \<not> mkpathOk env then ''Failed to create directory for spelling dictionaries.''
         else ''Could not read '' @ url @ '': '' @ downloadMessages env @ ''.'')]"
proof (cases "isWindows env")
  case True
  with assms(2) show ?thesis
    by (auto simp: dictionaryAutoinstall_def Let_def helpOffer_messages)
next
  case False
  with assms(1) have "\<not> useSystemDataLocations env"
    by (simp add: takesDownloadPath_def)
  with assms(2) show ?thesis
    by (auto simp: dictionaryAutoinstall_def Let_def helpOffer_messages)
qed

lemma join_concat:
  "fs \<noteq> [] \<Longrightarrow> join sep fs @ sep = concat (map (\<lambda>f. f @ sep) fs)"
proof (induction fs)
  case Nil
  then show ?case by simp
next
  case (Cons f fs)
  show ?case
  proof (cases fs)
    case Nil
    then show ?thesis by simp
  next
    case (Cons g gs)
    with Cons.IH show ?thesis by simp
  qed
qed

lemma join_butlast:
  "fs \<noteq> [] \<Longrightarrow> join sep fs = concat (map (\<lambda>f. f @ sep) (butlast fs)) @ last fs"
proof (induction fs)
  case Nil
  then show ?case by simp
next
  case (Cons f fs)
  show ?case
  proof (cases fs)
    case Nil
    then show ?thesis by simp
  next
    case (Cons g gs)
    with Cons.IH show ?thesis by simp
  qed
qed

lemma failedMessage_text:
  "fs \<noteq> [] \<Longrightarrow>
   failedMessage fs =
     ''The following dictionaries could not be downloaded:'' @ [CHR 0x0A]
     @ concat (map (\<lambda>f. f @ [CHR 0x0A]) fs) @ [CHR 0x0A]
     @ ''Check the connectivity and directory permissions.'' @ [CHR 0x0A]
     @ ''Hint: If you don'' @ [CHR 0x27] @ ''t have write permissions in system folders, ''
     @ ''you can switch to user paths in the settings dialog.''"
proof -
  assume "fs \<noteq> []"
  then have "join [CHR 0x0A] fs @ [CHR 0x0A] = concat (map (\<lambda>f. f @ [CHR 0x0A]) fs)"
    by (rule join_concat)
  then have "join [CHR 0x0A] fs @ [CHR 0x0A] @ rest = concat (map (\<lambda>f. f @ [CHR 0x0A]) fs) @ rest"
    for rest :: string
    by (metis append_assoc)
  then show ?thesis
    by (simp only: failedMessage_def newline_def)
qed

lemma installedMessage_text:
  "fs \<noteq> [] \<Longrightarrow>
   installedMessage fs =
     ''The following dictionary files were installed:'' @ [CHR 0x0A]
     @ concat (map (\<lambda>f. f @ [CHR 0x0A]) (butlast fs)) @ last fs"
  by (simp add: installedMessage_def newline_def join_butlast)

lemma notFoundMessage_text:
  "notFoundMessage code = ''No spelling dictionaries found for '' @ [CHR 0x27] @ code @ [CHR 0x27] @ ''.''"
  by (simp add: notFoundMessage_def quoted_def)

text \<open>
  C7: on the download path, once the spelling directory exists and the index page has
  been read, the list \<open>failed\<close> holds the file names, of the dictionary files found, whose
  download gave nothing or whose file could not be opened for writing, and \<open>downloaded\<close>
  holds the others (lemmas \<open>langLoop_failed\<close> and \<open>langLoop_downloaded\<close>). The function
  then shows exactly one message box, with the text of the source (as written there,
  before translation). If some file failed, it is the critical box titled \<open>Error\<close>: the line
  \<open>The following dictionaries could not be downloaded:\<close>, then every failed file name on a
  line of its own, in the order of the downloads, then an empty line and the two lines of
  advice. Otherwise, if some file was installed, it is the information box titled
  \<open>Dictionaries installed\<close>: the line \<open>The following dictionary files were installed:\<close>, then
  every installed file name on a line of its own, the last one without a line end.
  Otherwise it is the error box with the buttons Ok and Help, whose text is
  \<open>No spelling dictionaries found for\<close>, the language code between apostrophes, and a
  full stop.
\<close>

theorem dictionaryAutoinstall_report:
  "takesDownloadPath env \<Longrightarrow> mkpathOk env \<Longrightarrow> toQString (downloadData env url) \<noteq> [] \<Longrightarrow>
   filter isMessage (dictionaryAutoinstall env) =
     [if failedList env \<noteq> [] then
        Critical ''Error''
          (''The following dictionaries could not be downloaded:'' @ [CHR 0x0A]
           @ concat (map (\<lambda>f. f @ [CHR 0x0A]) (failedList env)) @ [CHR 0x0A]
           @ ''Check the connectivity and directory permissions.'' @ [CHR 0x0A]
           @ ''Hint: If you don'' @ [CHR 0x27] @ ''t have write permissions in system folders, ''
           @ ''you can switch to user paths in the settings dialog.'')
      else if downloadedList env \<noteq> [] then
        Information ''Dictionaries installed''
          (''The following dictionary files were installed:'' @ [CHR 0x0A]
           @ concat (map (\<lambda>f. f @ [CHR 0x0A]) (butlast (downloadedList env)))
           @ last (downloadedList env))
      else
        CriticalOkHelp ''Error''
          (''No spelling dictionaries found for '' @ [CHR 0x27] @ selectedLanguageCode env
           @ [CHR 0x27] @ ''.'')]"
proof -
  assume h: "takesDownloadPath env" "mkpathOk env" "toQString (downloadData env url) \<noteq> []"
  have box: "filter isMessage (dictionaryAutoinstall env) =
     [if failedList env \<noteq> [] then Critical ''Error'' (failedMessage (failedList env))
      else if downloadedList env \<noteq> [] then
        Information ''Dictionaries installed'' (installedMessage (downloadedList env))
      else CriticalOkHelp ''Error'' (notFoundMessage (selectedLanguageCode env))]"
    using h
    by (simp add: dictionaryAutoinstall_download Let_def
        langLoop_failed langLoop_downloaded langLoop_messages helpOffer_messages
        failedList_def downloadedList_def dictionaryFiles_def)
  show ?thesis
  proof (cases "failedList env \<noteq> []")
    case True
    with box failedMessage_text[OF True] show ?thesis by simp
  next
    case False
    show ?thesis
    proof (cases "downloadedList env \<noteq> []")
      case True
      with box False installedMessage_text[OF True] show ?thesis by simp
    next
      case d: False
      with box False notFoundMessage_text[of "selectedLanguageCode env"]
      show ?thesis by simp
    qed
  qed
qed

theorem dictionaryAutoinstall_report_witness:
  "takesDownloadPath sampleInstall \<and> mkpathOk sampleInstall
   \<and> toQString (downloadData sampleInstall url) \<noteq> []
   \<and> dictionaryFiles sampleInstall = [(''de'', ''de_DE.dic''), (''de'', ''de_DE.aff'')]
   \<and> failedList sampleInstall = [''de_DE.aff'']
   \<and> filter isMessage (dictionaryAutoinstall sampleInstall) =
       [Critical ''Error''
          (''The following dictionaries could not be downloaded:'' @ [CHR 0x0A]
           @ ''de_DE.aff'' @ [CHR 0x0A, CHR 0x0A]
           @ ''Check the connectivity and directory permissions.'' @ [CHR 0x0A]
           @ ''Hint: If you don'' @ [CHR 0x27] @ ''t have write permissions in system folders, ''
           @ ''you can switch to user paths in the settings dialog.'')]
   \<and> filter isMessage (dictionaryAutoinstall (sampleInstall\<lparr>openWriteOnly := (\<lambda>path. False)\<rparr>)) =
       [Critical ''Error''
          (''The following dictionaries could not be downloaded:'' @ [CHR 0x0A]
           @ ''de_DE.dic'' @ [CHR 0x0A] @ ''de_DE.aff'' @ [CHR 0x0A, CHR 0x0A]
           @ ''Check the connectivity and directory permissions.'' @ [CHR 0x0A]
           @ ''Hint: If you don'' @ [CHR 0x27] @ ''t have write permissions in system folders, ''
           @ ''you can switch to user paths in the settings dialog.'')]
   \<and> filter isMessage
         (dictionaryAutoinstall (sampleInstall\<lparr>downloadData := (\<lambda>u.
            if u = plainurl @ ''de/de_DE.aff'' then Some ''rules''
            else downloadData sampleInstall u)\<rparr>)) =
       [Information ''Dictionaries installed''
          (''The following dictionary files were installed:'' @ [CHR 0x0A]
           @ ''de_DE.dic'' @ [CHR 0x0A] @ ''de_DE.aff'')]
   \<and> filter isMessage (dictionaryAutoinstall (sampleInstall\<lparr>selectedLanguageCode := ''fr''\<rparr>)) =
       [CriticalOkHelp ''Error''
          (''No spelling dictionaries found for '' @ [CHR 0x27] @ ''fr'' @ [CHR 0x27] @ ''.'')]"
proof -
  have h: "takesDownloadPath sampleInstall" "mkpathOk sampleInstall"
    "toQString (downloadData sampleInstall url) \<noteq> []"
    by code_simp+
  have d: "dictionaryFiles sampleInstall = [(''de'', ''de_DE.dic''), (''de'', ''de_DE.aff'')]"
    by code_simp
  have f: "failedList sampleInstall = [''de_DE.aff'']" by code_simp
  have h2: "takesDownloadPath (sampleInstall\<lparr>openWriteOnly := (\<lambda>path. False)\<rparr>)"
    "mkpathOk (sampleInstall\<lparr>openWriteOnly := (\<lambda>path. False)\<rparr>)"
    "toQString (downloadData (sampleInstall\<lparr>openWriteOnly := (\<lambda>path. False)\<rparr>) url) \<noteq> []"
    by code_simp+
  have f2: "failedList (sampleInstall\<lparr>openWriteOnly := (\<lambda>path. False)\<rparr>) = [''de_DE.dic'', ''de_DE.aff'']"
    by code_simp
  have h3: "takesDownloadPath (sampleInstall\<lparr>selectedLanguageCode := ''fr''\<rparr>)"
    "mkpathOk (sampleInstall\<lparr>selectedLanguageCode := ''fr''\<rparr>)"
    "toQString (downloadData (sampleInstall\<lparr>selectedLanguageCode := ''fr''\<rparr>) url) \<noteq> []"
    by code_simp+
  have f3: "failedList (sampleInstall\<lparr>selectedLanguageCode := ''fr''\<rparr>) = []"
    "downloadedList (sampleInstall\<lparr>selectedLanguageCode := ''fr''\<rparr>) = []"
    by code_simp+
  have h4: "takesDownloadPath (sampleInstall\<lparr>downloadData := (\<lambda>u.
            if u = plainurl @ ''de/de_DE.aff'' then Some ''rules''
            else downloadData sampleInstall u)\<rparr>)"
    "mkpathOk (sampleInstall\<lparr>downloadData := (\<lambda>u.
            if u = plainurl @ ''de/de_DE.aff'' then Some ''rules''
            else downloadData sampleInstall u)\<rparr>)"
    "toQString (downloadData (sampleInstall\<lparr>downloadData := (\<lambda>u.
            if u = plainurl @ ''de/de_DE.aff'' then Some ''rules''
            else downloadData sampleInstall u)\<rparr>) url) \<noteq> []"
    by code_simp+
  have f4: "failedList (sampleInstall\<lparr>downloadData := (\<lambda>u.
            if u = plainurl @ ''de/de_DE.aff'' then Some ''rules''
            else downloadData sampleInstall u)\<rparr>) = []"
    "downloadedList (sampleInstall\<lparr>downloadData := (\<lambda>u.
            if u = plainurl @ ''de/de_DE.aff'' then Some ''rules''
            else downloadData sampleInstall u)\<rparr>) = [''de_DE.dic'', ''de_DE.aff'']"
    by code_simp+
  from dictionaryAutoinstall_report [OF h] dictionaryAutoinstall_report [OF h2]
    dictionaryAutoinstall_report [OF h3] dictionaryAutoinstall_report [OF h4] h d f f2 f3 f4
  show ?thesis by simp
qed
end
